theory Spec2Isabelle
  imports Main "HOL-Library.Word" "HOL-Library.Signed_Division" "HOL-Library.Multiset"
    "HOL-Library.Char_ord" "HOL-Library.List_Lexorder" "HOL-Library.Sublist"
begin

unbundle bit_operations_syntax

section \<open>Basic types\<close>

text \<open>
  Go's \<open>int64\<close> and \<open>uint\<close> (64 bits on the release targets) are 64-bit words: arithmetic
  wraps, \<open>int64\<close> comparisons are the signed ones (\<open><s\<close>, \<open>\<le>s\<close>).
  A \<open>time.Time\<close> is modelled by the instant it denotes, in nanoseconds since Go's zero time
  (January 1, year 1, 00:00 UTC): \<open>IsZero\<close> and \<open>Equal\<close> look at the instant only.
  A Go \<open>string\<close> is a byte sequence, compared bytewise and lexicographically by \<open><\<close>.
\<close>

type_synonym int64 = "64 word"
type_synonym uint = "64 word"
type_synonym instant = int

definition IsZero :: "instant \<Rightarrow> bool" where
  "IsZero t = (t = 0)"

definition Equal :: "instant \<Rightarrow> instant \<Rightarrow> bool" where
  "Equal t u = (t = u)"

section \<open>The diff of the two sorted listings (cmd/needl/main.go, mainExit)\<close>

record LocalFile =
  Name :: string
  SortName :: string
  Timestamp :: instant
  Size :: int64

record RemoteFile =
  Name :: string
  SortName :: string
  URL :: string
  Timestamp :: instant \<comment> \<open>zero if unknown\<close>
  Size :: int64 \<comment> \<open>-1 if unknown\<close>

text \<open>The three slices \<open>extra\<close>, \<open>missing\<close> and \<open>changed\<close> that the loops append to.\<close>

record DiffState =
  extra :: "LocalFile list"
  missing :: "RemoteFile list"
  changed :: "RemoteFile list"

text \<open>
  The main loop \<open>for i < len(locals) && j < len(remotes)\<close>. The two list arguments are
  \<open>locals[i:]\<close> and \<open>remotes[j:]\<close>; the loop returns them with the state once either is empty.
\<close>

fun mergeLoop ::
  "LocalFile list \<Rightarrow> RemoteFile list \<Rightarrow> DiffState \<Rightarrow> LocalFile list \<times> RemoteFile list \<times> DiffState"
where
  "mergeLoop (local # ls) (remote # rs) st =
     (if LocalFile.SortName local < RemoteFile.SortName remote then
        mergeLoop ls (remote # rs) (st\<lparr>extra := extra st @ [local]\<rparr>)
      else if LocalFile.SortName local > RemoteFile.SortName remote then
        mergeLoop (local # ls) rs (st\<lparr>missing := missing st @ [remote]\<rparr>)
      else
        mergeLoop ls rs
          (if \<not> Equal (LocalFile.Timestamp local) (RemoteFile.Timestamp remote)
              \<or> LocalFile.Size local \<noteq> RemoteFile.Size remote
           then st\<lparr>changed := changed st @ [remote]\<rparr>
           else st))"
| "mergeLoop ls rs st = (ls, rs, st)"

text \<open>The two draining loops after it.\<close>

fun drainLocals :: "LocalFile list \<Rightarrow> DiffState \<Rightarrow> DiffState" where
  "drainLocals [] st = st"
| "drainLocals (l # ls) st = drainLocals ls (st\<lparr>extra := extra st @ [l]\<rparr>)"

fun drainRemotes :: "RemoteFile list \<Rightarrow> DiffState \<Rightarrow> DiffState" where
  "drainRemotes [] st = st"
| "drainRemotes (r # rs) st = drainRemotes rs (st\<lparr>missing := missing st @ [r]\<rparr>)"

definition diffFiles :: "LocalFile list \<Rightarrow> RemoteFile list \<Rightarrow> DiffState" where
  "diffFiles locals remotes =
     (case mergeLoop locals remotes \<lparr>extra = [], missing = [], changed = []\<rparr> of
        (ls, rs, st) \<Rightarrow> drainRemotes rs (drainLocals ls st))"

text \<open>The listings of the test table of \<open>Test_DiffFiles\<close> (times in minutes, scaled to nanoseconds).\<close>

definition minutes :: "int \<Rightarrow> instant" where
  "minutes m = m * 60000000000"

definition localFoo :: LocalFile where
  "localFoo = \<lparr>LocalFile.Name = ''foo'', LocalFile.SortName = ''foo'',
     LocalFile.Timestamp = minutes 1061890560, LocalFile.Size = 1234\<rparr>"

definition remoteFooNoSize :: RemoteFile where
  "remoteFooNoSize = \<lparr>RemoteFile.Name = ''foo'', RemoteFile.SortName = ''foo'',
     RemoteFile.URL = ''foo'', RemoteFile.Timestamp = minutes 1061890560, RemoteFile.Size = - 1\<rparr>"

definition remoteFooNoTime :: RemoteFile where
  "remoteFooNoTime = \<lparr>RemoteFile.Name = ''foo'', RemoteFile.SortName = ''foo'',
     RemoteFile.URL = ''foo'', RemoteFile.Timestamp = 0, RemoteFile.Size = 1234\<rparr>"

definition localsE :: "LocalFile list" where
  "localsE =
     [\<lparr>LocalFile.Name = ''foo'', LocalFile.SortName = ''foo'',
        LocalFile.Timestamp = minutes 1061890560, LocalFile.Size = 1234\<rparr>,
      \<lparr>LocalFile.Name = ''pool'', LocalFile.SortName = ''pool'',
        LocalFile.Timestamp = minutes 1061939102, LocalFile.Size = 444\<rparr>,
      \<lparr>LocalFile.Name = ''stand'', LocalFile.SortName = ''stand'',
        LocalFile.Timestamp = minutes 1062943199, LocalFile.Size = 3548\<rparr>]"

definition remotesE :: "RemoteFile list" where
  "remotesE =
     [\<lparr>RemoteFile.Name = ''foo'', RemoteFile.SortName = ''foo'', RemoteFile.URL = ''foo'',
        RemoteFile.Timestamp = minutes 1061890560, RemoteFile.Size = 1234\<rparr>,
      \<lparr>RemoteFile.Name = ''pool'', RemoteFile.SortName = ''pool'', RemoteFile.URL = ''pool'',
        RemoteFile.Timestamp = minutes 1062286288, RemoteFile.Size = 444\<rparr>,
      \<lparr>RemoteFile.Name = ''zero'', RemoteFile.SortName = ''zero'', RemoteFile.URL = ''zero'',
        RemoteFile.Timestamp = minutes 1051371360, RemoteFile.Size = 99\<rparr>]"

text \<open>
  The count of equal-\<open>sort_name\<close> pairs of two listings, stated without the loop: the size of
  the intersection of the two multisets of sort names.
\<close>

definition matched :: "LocalFile list \<Rightarrow> RemoteFile list \<Rightarrow> nat" where
  "matched locals remotes =
     size (mset (map LocalFile.SortName locals) \<inter># mset (map RemoteFile.SortName remotes))"

section \<open>Backoff (modtime.go: backoff, intPow)\<close>

text \<open>
  \<open>intPow\<close> at \<open>uint64\<close>: the loop runs its body once before it tests \<open>exp == 0\<close>.
\<close>

function intPowLoop :: "64 word \<Rightarrow> 64 word \<Rightarrow> 64 word \<Rightarrow> 64 word" where
  "intPowLoop base exp result =
     (let result' = (if exp AND 1 = 1 then result * base else result);
          exp' = drop_bit 1 exp
      in if exp' = 0 then result' else intPowLoop (base * base) exp' result')"
  by pat_completeness auto
termination
proof (relation "measure (\<lambda>(base, exp, result). unat exp)")
  show "wf (measure (\<lambda>(base, exp, result). unat exp))" by simp
next
  fix base exp result :: "64 word" and r' e' :: "64 word"
  assume e': "e' = drop_bit 1 exp" and nz: "e' \<noteq> 0"
  have u: "unat e' = unat exp div 2"
    unfolding e' unat_drop_bit_eq by (simp add: drop_bit_eq_div)
  have "unat e' \<noteq> 0" using nz by (simp add: unat_eq_0)
  then show "((base * base, e', r'), (base, exp, result))
      \<in> measure (\<lambda>(base, exp, result). unat exp)"
    using u by simp
qed

declare intPowLoop.simps [simp del]

definition intPow :: "64 word \<Rightarrow> 64 word \<Rightarrow> 64 word" where
  "intPow base exp = intPowLoop base exp 1"

text \<open>
  \<open>rand.Int63n(n)\<close> panics for \<open>n <= 0\<close> and otherwise returns \<open>v % n\<close> for the 63-bit value
  \<open>v\<close> that its rejection loop accepts. The value \<open>v\<close> is the parameter \<open>draw\<close>; a panic
  is \<open>None\<close>.
\<close>

definition Int63n :: "int64 \<Rightarrow> nat \<Rightarrow> int64 option" where
  "Int63n n draw = (if n \<le>s 0 then None else Some (word_of_nat (draw mod unat n)))"

definition Millisecond :: int64 where
  "Millisecond = 1000000"

text \<open>
  The result is a \<open>time.Duration\<close>: nanoseconds in an \<open>int64\<close>. Go's \<open>/\<close> on \<open>int64\<close>
  truncates towards zero (\<open>sdiv\<close> on the signed values).
\<close>

definition backoff :: "uint \<Rightarrow> nat \<Rightarrow> int64 option" where
  "backoff curRetry draw =
     (let e = (if curRetry > 10 then 10 else curRetry);
          ms = intPow 2 e * 500
      in case Int63n (word_of_int (sint ms sdiv 10)) draw of
           None \<Rightarrow> None
         | Some jitter \<Rightarrow> Some ((ms + jitter) * Millisecond))"

section \<open>The download engine (modtime.go: DownloadToFile, downloadImpl)\<close>

record DownloadOptions =
  ExpectedSize :: int64 \<comment> \<open>zero if the size is not known up front\<close>
  ExpectedLastModified :: instant \<comment> \<open>zero if not known\<close>
  MaxRetry :: uint \<comment> \<open>zero: retry forever\<close>

record DownloadResults =
  ExpectedSize :: int64
  ActualSize :: int64
  LastModified :: instant
  Retries :: uint

record downloadContext =
  remoteURL :: string
  opts :: DownloadOptions
  bytesRead :: int64
  curRetry :: uint

subsection \<open>Header parsing helpers\<close>

text \<open>
  An \<open>http.Header\<close>, as far as \<open>Get\<close> reads it: the first value stored under a canonical
  key; \<open>Get\<close> returns the empty string for a missing key.
\<close>

type_synonym Header = "string \<Rightarrow> string option"

definition Get :: "Header \<Rightarrow> string \<Rightarrow> string" where
  "Get h key = (case h key of None \<Rightarrow> [] | Some v \<Rightarrow> v)"

definition parseCanResume :: "Header \<Rightarrow> bool" where
  "parseCanResume h = (Get h ''Accept-Ranges'' = ''bytes'')"

text \<open>
  \<open>strconv.ParseInt(s, 10, 64)\<close>: an optional sign, then one or more decimal digits (no
  underscores in an explicit base), and a range error outside \<open>[-2^63, 2^63 - 1]\<close>; every
  error is \<open>None\<close>.
\<close>

definition isDigit :: "char \<Rightarrow> bool" where
  "isDigit c = (CHR ''0'' \<le> c \<and> c \<le> CHR ''9'')"

definition digitsValue :: "string \<Rightarrow> nat" where
  "digitsValue ds = foldl (\<lambda>acc c. acc * 10 + (of_char c - 48)) 0 ds"

definition ParseInt :: "string \<Rightarrow> int option" where
  "ParseInt s =
     (if s = [] then None
      else
        let neg = (hd s = CHR ''-'');
            ds = (if hd s = CHR ''+'' \<or> hd s = CHR ''-'' then tl s else s)
        in if ds = [] \<or> \<not> list_all isDigit ds then None
           else
             let un = digitsValue ds
             in if \<not> neg \<and> 2 ^ 63 \<le> un then None
                else if neg \<and> 2 ^ 63 < un then None
                else Some (if neg then - int un else int un))"

text \<open>\<open>parseContentLength\<close> returns -1 if the header is not present or cannot be parsed.\<close>

definition parseContentLength :: "Header \<Rightarrow> int64" where
  "parseContentLength h =
     (let lenRaw = Get h ''Content-Length''
      in if length lenRaw = 0 then - 1
         else case ParseInt lenRaw of None \<Rightarrow> - 1 | Some n \<Rightarrow> word_of_int n)"

definition Minute :: int where
  "Minute = 60000000000"

text \<open>\<open>t.Truncate(d)\<close> rounds the time since the zero time down to a multiple of \<open>d\<close>.\<close>

definition Truncate :: "instant \<Rightarrow> int \<Rightarrow> instant" where
  "Truncate t d = (if d \<le> 0 then t else t - t mod d)"

text \<open>
  \<open>parseLastModifiedMinute\<close> returns zero if the header is not present or cannot be parsed.
  The library call \<open>time.Parse("Mon, 02 Jan 2006 15:04:05 GMT", modRaw)\<close> is the parameter
  \<open>timeParse\<close>, \<open>None\<close> for a parse error.
\<close>

definition parseLastModifiedMinute :: "(string \<Rightarrow> instant option) \<Rightarrow> Header \<Rightarrow> instant" where
  "parseLastModifiedMinute timeParse h =
     (let modRaw = Get h ''Last-Modified''
      in if length modRaw = 0 then 0
         else case timeParse modRaw of None \<Rightarrow> 0 | Some t \<Rightarrow> Truncate t Minute)"

subsection \<open>The environment of a download\<close>

type_synonym bytes = "8 word list"

text \<open>
  How \<open>io.Copy\<close> from the response body into the file ended: at the end of the body, on an
  error reading the body, or on an error writing the file.
\<close>

datatype copyEnd = EndOfBody | ReadError | WriteError

text \<open>
  One HTTP response as the engine sees it. \<open>copied\<close> are the bytes that \<open>io.Copy\<close> moved
  into the file before it ended (its count \<open>n\<close> is their number).
\<close>

record Response =
  StatusCode :: int
  Header :: Header
  copied :: bytes
  copyEnded :: copyEnd
  closeFails :: bool

text \<open>
  What the world answers during one call of \<open>downloadImpl\<close>: whether \<open>http.NewRequest\<close>
  fails, what \<open>http.DefaultClient.Do\<close> returns (\<open>None\<close>: an error), whether \<open>f.Seek\<close> and
  \<open>f.Truncate\<close> fail, and the random value drawn by \<open>backoff\<close> if a retry follows.
\<close>

record Attempt =
  newRequestFails :: bool
  doResult :: "Response option"
  seekFails :: bool
  truncateFails :: bool
  draw :: nat

text \<open>The open temporary file: its bytes and the offset of the next write.\<close>

record File =
  content :: bytes
  offset :: nat

definition fileWrite :: "File \<Rightarrow> bytes \<Rightarrow> File" where
  "fileWrite f bs =
     \<lparr>content = take (offset f) (content f) @ replicate (offset f - length (content f)) 0
                 @ bs @ drop (offset f + length bs) (content f),
      offset = offset f + length bs\<rparr>"

text \<open>
  The effects of the engine: the temporary file, the requests sent (each with the offset of its
  \<open>Range: bytes=N-\<close> header, if any) and the pauses slept.
\<close>

record World =
  tmpFile :: File
  sent :: "int64 option list"
  slept :: "int64 list"

datatype error =
    MaxRetriesExceeded uint
  | CreateRequest
  | DoRequest
  | SeekToStart
  | TruncateFailed
  | RemainingContentLength int64 int64
  | ContentLength int64 int64
  | LastModifiedMismatch instant instant
  | Download copyEnd
  | CloseResponseBody
  | FinalSize int64 int64
  | BackoffPanic
  | CreateFile
  | CloseFile
  | Move
  | SetTime

subsection \<open>One attempt\<close>

text \<open>
  The body of \<open>downloadImpl\<close> from \<open>http.NewRequest\<close> on ends in one of two ways: it returns
  (an error or \<open>nil\<close>), or it hands an error to the closure \<open>fnRetryOrErr\<close>. The closure
  reads the variable \<open>canResume\<close> when it is called, so the value at that moment is kept.
\<close>

datatype outcome = Return "error option" | RetryOrErr error bool

text \<open>Dropping the bytes read so far when the server cannot resume.\<close>

definition dropPrevious ::
  "Attempt \<Rightarrow> bool \<Rightarrow> downloadContext \<times> World \<Rightarrow> error + downloadContext \<times> World" where
  "dropPrevious a canResume s =
     (case s of (dc, w) \<Rightarrow>
        if \<not> canResume \<and> 0 <s bytesRead dc then
          if seekFails a then Inl SeekToStart
          else if truncateFails a then Inl TruncateFailed
          else Inr (dc\<lparr>bytesRead := 0\<rparr>, w\<lparr>tmpFile := \<lparr>content = [], offset = 0\<rparr>\<rparr>)
        else Inr (dc, w))"

text \<open>The checks on \<open>Content-Length\<close>.\<close>

definition checkContentLength :: "int64 \<Rightarrow> bool \<Rightarrow> downloadContext \<Rightarrow> error + downloadContext" where
  "checkContentLength cl canResume dc =
     (if 0 <s cl then
        if canResume then
          if 0 <s DownloadOptions.ExpectedSize (opts dc) then
            let expectedCl = DownloadOptions.ExpectedSize (opts dc) - bytesRead dc
            in if cl \<noteq> expectedCl then Inl (RemainingContentLength expectedCl cl) else Inr dc
          else Inr (dc\<lparr>opts := (opts dc)\<lparr>DownloadOptions.ExpectedSize := bytesRead dc + cl\<rparr>\<rparr>)
        else
          if 0 <s DownloadOptions.ExpectedSize (opts dc) \<and> cl \<noteq> DownloadOptions.ExpectedSize (opts dc)
          then Inl (ContentLength (DownloadOptions.ExpectedSize (opts dc)) cl)
          else Inr (dc\<lparr>opts := (opts dc)\<lparr>DownloadOptions.ExpectedSize := cl\<rparr>\<rparr>)
      else Inr dc)"

text \<open>The checks on \<open>Last-Modified\<close>.\<close>

definition checkLastModified :: "instant \<Rightarrow> downloadContext \<Rightarrow> error + downloadContext" where
  "checkLastModified mt dc =
     (if \<not> IsZero mt then
        if IsZero (ExpectedLastModified (opts dc)) then
          Inr (dc\<lparr>opts := (opts dc)\<lparr>ExpectedLastModified := mt\<rparr>\<rparr>)
        else if \<not> Equal mt (ExpectedLastModified (opts dc)) then
          Inl (LastModifiedMismatch (ExpectedLastModified (opts dc)) mt)
        else Inr dc
      else Inr dc)"

text \<open>
  The copy of the body and what follows it: \<open>dc.bytesRead += n\<close>, then the retry closure on
  a copy error, else the close of the body and the check of the final size.
\<close>

definition copyBody ::
  "Response \<Rightarrow> bool \<Rightarrow> downloadContext \<times> World \<Rightarrow> outcome \<times> downloadContext \<times> World" where
  "copyBody resp canResume s =
     (case s of (dc, w) \<Rightarrow>
        let w' = w\<lparr>tmpFile := fileWrite (tmpFile w) (copied resp)\<rparr>;
            dc' = dc\<lparr>bytesRead := bytesRead dc + word_of_nat (length (copied resp))\<rparr>
        in if copyEnded resp \<noteq> EndOfBody then
             (RetryOrErr (Download (copyEnded resp)) canResume, dc', w')
           else if closeFails resp then (Return (Some CloseResponseBody), dc', w')
           else if 0 <s DownloadOptions.ExpectedSize (opts dc')
                   \<and> bytesRead dc' \<noteq> DownloadOptions.ExpectedSize (opts dc')
           then (Return (Some (FinalSize (DownloadOptions.ExpectedSize (opts dc')) (bytesRead dc'))),
                 dc', w')
           else (Return None, dc', w'))"

definition attempt ::
  "(string \<Rightarrow> instant option) \<Rightarrow> Attempt \<Rightarrow> bool \<Rightarrow> downloadContext \<times> World
     \<Rightarrow> outcome \<times> downloadContext \<times> World" where
  "attempt timeParse a canResume s =
     (case s of (dc, w) \<Rightarrow>
        if newRequestFails a then (Return (Some CreateRequest), dc, w)
        else
          let w1 = w\<lparr>sent := sent w @ [if canResume \<and> 0 <s bytesRead dc
                                         then Some (bytesRead dc) else None]\<rparr>
          in case doResult a of
               None \<Rightarrow> (RetryOrErr DoRequest canResume, dc, w1)
             | Some resp \<Rightarrow>
                 let canResume' = (if \<not> canResume then parseCanResume (Header resp) else canResume)
                 in case dropPrevious a canResume' (dc, w1) of
                      Inl e \<Rightarrow> (Return (Some e), dc, w1)
                    | Inr (dc2, w2) \<Rightarrow>
                        (case checkContentLength (parseContentLength (Header resp)) canResume' dc2 of
                           Inl e \<Rightarrow> (Return (Some e), dc2, w2)
                         | Inr dc3 \<Rightarrow>
                             (case checkLastModified
                                     (parseLastModifiedMinute timeParse (Header resp)) dc3 of
                                Inl e \<Rightarrow> (Return (Some e), dc3, w2)
                              | Inr dc4 \<Rightarrow> copyBody resp canResume' (dc4, w2))))"

subsection \<open>Retrying\<close>

text \<open>
  \<open>downloadImpl\<close> with its closure \<open>fnRetryOrErr\<close>. Each call takes the next answer of the world
  from \<open>script\<close>; the result is \<open>None\<close> when the script holds no answer for a call that needs
  one (nothing is then said about the code).
\<close>

text \<open>
  The test \<open>dc.opts.MaxRetry > 0 && dc.curRetry >= dc.opts.MaxRetry\<close>, made on entry and
  again by the closure after it has counted the retry.
\<close>

definition atLimit :: "downloadContext \<Rightarrow> bool" where
  "atLimit dc = (0 < MaxRetry (opts dc) \<and> MaxRetry (opts dc) \<le> curRetry dc)"

fun downloadImpl ::
  "(string \<Rightarrow> instant option) \<Rightarrow> Attempt list \<Rightarrow> bool \<Rightarrow> downloadContext \<times> World
     \<Rightarrow> (error option \<times> downloadContext \<times> World) option" where
  "downloadImpl timeParse [] canResume (dc, w) =
     (if atLimit dc then Some (Some (MaxRetriesExceeded (MaxRetry (opts dc))), dc, w)
      else None)"
| "downloadImpl timeParse (a # script) canResume (dc, w) =
     (if atLimit dc then Some (Some (MaxRetriesExceeded (MaxRetry (opts dc))), dc, w)
      else
        case attempt timeParse a canResume (dc, w) of
          (Return r, dc1, w1) \<Rightarrow> Some (r, dc1, w1)
        | (RetryOrErr err canResume', dc1, w1) \<Rightarrow>
            let dc2 = dc1\<lparr>curRetry := curRetry dc1 + 1\<rparr>
            in if atLimit dc2 then Some (Some err, dc2, w1)
               else
                 case backoff (curRetry dc2) (draw a) of
                   None \<Rightarrow> Some (Some BackoffPanic, dc2, w1)
                 | Some d \<Rightarrow>
                     downloadImpl timeParse script canResume' (dc2, w1\<lparr>slept := slept w1 @ [d]\<rparr>))"

subsection \<open>DownloadToFile\<close>

text \<open>
  The file system: a path holds bytes and a modification time. \<open>clock\<close> is the time the
  system stamps on the temporary file; the flags say which of the local operations fail.
\<close>

record DiskFile =
  bytesOf :: bytes
  modTime :: instant

type_synonym FileSystem = "string \<Rightarrow> DiskFile option"

record Env =
  createFails :: bool
  fileCloseFails :: bool
  replaceFails :: bool
  chtimesFails :: bool
  clock :: instant
  script :: "Attempt list"

text \<open>
  \<open>modifyFileTime\<close> (the variant that is not for Windows) is
  \<open>os.Chtimes(path, time.Time{}, stamp)\<close>: a zero time leaves the file time unchanged.
\<close>

definition modifyFileTime :: "Env \<Rightarrow> string \<Rightarrow> instant \<Rightarrow> FileSystem \<Rightarrow> error + FileSystem" where
  "modifyFileTime env path stamp fs =
     (case fs path of
        None \<Rightarrow> Inl SetTime
      | Some d \<Rightarrow>
          if chtimesFails env then Inl SetTime
          else if IsZero stamp then Inr fs
          else Inr (fs(path \<mapsto> d\<lparr>modTime := stamp\<rparr>)))"

text \<open>\<open>atomic.ReplaceFile(source, destination)\<close>: a rename.\<close>

definition ReplaceFile :: "Env \<Rightarrow> string \<Rightarrow> string \<Rightarrow> FileSystem \<Rightarrow> error + FileSystem" where
  "ReplaceFile env source destination fs =
     (case fs source of
        None \<Rightarrow> Inl Move
      | Some d \<Rightarrow> if replaceFails env then Inl Move else Inr ((fs(destination \<mapsto> d))(source := None)))"

definition DownloadToFile ::
  "(string \<Rightarrow> instant option) \<Rightarrow> Env \<Rightarrow> string \<Rightarrow> string \<Rightarrow> DownloadOptions \<Rightarrow> FileSystem
     \<Rightarrow> (DownloadResults \<times> error option \<times> FileSystem) option" where
  "DownloadToFile timeParse env url localPath options fs =
     (let res = \<lparr>DownloadResults.ExpectedSize = DownloadOptions.ExpectedSize options,
                 ActualSize = 0, LastModified = ExpectedLastModified options, Retries = 0\<rparr>;
          tmpPath = localPath @ ''.tmp''
      in if createFails env then Some (res, Some CreateFile, fs)
         else
           let fs1 = fs(tmpPath \<mapsto> \<lparr>bytesOf = [], modTime = clock env\<rparr>);
               dc = \<lparr>remoteURL = url, opts = options, bytesRead = 0, curRetry = 0\<rparr>;
               w = \<lparr>tmpFile = \<lparr>content = [], offset = 0\<rparr>, sent = [], slept = []\<rparr>
           in case downloadImpl timeParse (script env) False (dc, w) of
                None \<Rightarrow> None
              | Some (err, dc', w') \<Rightarrow>
                  let res' = \<lparr>DownloadResults.ExpectedSize = DownloadOptions.ExpectedSize (opts dc'),
                              ActualSize = bytesRead dc',
                              LastModified = ExpectedLastModified (opts dc'),
                              Retries = curRetry dc'\<rparr>;
                      fs2 = fs1(tmpPath \<mapsto> \<lparr>bytesOf = content (tmpFile w'), modTime = clock env\<rparr>)
                  in case err of
                       Some e \<Rightarrow> Some (res', Some e, fs2)
                     | None \<Rightarrow>
                         if fileCloseFails env then Some (res', Some CloseFile, fs2)
                         else
                           case ReplaceFile env tmpPath localPath fs2 of
                             Inl e \<Rightarrow> Some (res', Some e, fs2)
                           | Inr fs3 \<Rightarrow>
                               (case modifyFileTime env localPath (LastModified res') fs3 of
                                  Inl e \<Rightarrow> Some (res', Some e, fs3)
                                | Inr fs4 \<Rightarrow> Some (res', None, fs4)))"

section \<open>The listing parser's choice of variant (internal/scraper/archivedotorg.go)\<close>

subsection \<open>The library: strings.TrimSpace, strings.HasPrefix, bufio.Scanner\<close>










text \<open>
  A \<open>bufio.Scanner\<close> is modelled by what its calls will deliver: the tokens still to come,
  each with the value of \<open>Err()\<close> after it, and the value of \<open>Err()\<close> once \<open>Scan\<close> has
  returned false. \<open>curText\<close> and \<open>curErr\<close> are the current \<open>Text()\<close> and \<open>Err()\<close>.
\<close>

datatype scanError = ErrTooLong | ReadFailure









subsection \<open>readType and ScrapeFromReader\<close>






section \<open>Notions used to state the properties\<close>

text \<open>An answer of the world that ends the attempt in a retryable error, whatever the state.\<close>

definition failsRetryably :: "(string \<Rightarrow> instant option) \<Rightarrow> Attempt \<Rightarrow> bool" where
  "failsRetryably timeParse a =
     (\<forall>canResume s. \<exists>e canResume' s'. attempt timeParse a canResume s = (RetryOrErr e canResume', s'))"

text \<open>The same answer with another HTTP status.\<close>

definition withStatus :: "(int \<Rightarrow> int) \<Rightarrow> Attempt \<Rightarrow> Attempt" where
  "withStatus g a = a\<lparr>doResult := map_option (\<lambda>r. r\<lparr>StatusCode := g (StatusCode r)\<rparr>) (doResult a)\<rparr>"

text \<open>
  The temporary file and the context agree: \<open>bytesRead\<close> counts the bytes of the file, and
  the next write appends.
\<close>

definition consistent :: "downloadContext \<times> World \<Rightarrow> bool" where
  "consistent s =
     (case s of (dc, w) \<Rightarrow>
        bytesRead dc = word_of_nat (length (content (tmpFile w)))
        \<and> offset (tmpFile w) = length (content (tmpFile w)))"

subsection \<open>Concrete answers, contexts and bodies\<close>

definition noTimes :: "string \<Rightarrow> instant option" where
  "noTimes raw = None"

definition response :: "int \<Rightarrow> (string \<times> string) list \<Rightarrow> bytes \<Rightarrow> copyEnd \<Rightarrow> Response" where
  "response code hs body ended =
     \<lparr>StatusCode = code, Header = map_of hs, copied = body, copyEnded = ended, closeFails = False\<rparr>"

definition answer :: "Response option \<Rightarrow> Attempt" where
  "answer r = \<lparr>newRequestFails = False, doResult = r, seekFails = False, truncateFails = False,
     draw = 7\<rparr>"

definition context0 :: "int64 \<Rightarrow> uint \<Rightarrow> downloadContext" where
  "context0 expected maxRetry =
     \<lparr>remoteURL = ''http://example.org/foo'',
      opts = \<lparr>DownloadOptions.ExpectedSize = expected, ExpectedLastModified = 0,
               MaxRetry = maxRetry\<rparr>,
      bytesRead = 0, curRetry = 0\<rparr>"

definition world0 :: World where
  "world0 = \<lparr>tmpFile = \<lparr>content = [], offset = 0\<rparr>, sent = [], slept = []\<rparr>"

text \<open>A context that has read 40 bytes of 100 into the temporary file.\<close>

definition context40 :: downloadContext where
  "context40 = (context0 100 0)\<lparr>bytesRead := 40\<rparr>"

definition world40 :: World where
  "world40 = \<lparr>tmpFile = \<lparr>content = replicate 40 1, offset = 40\<rparr>, sent = [None], slept = []\<rparr>"

definition environment :: "Attempt list \<Rightarrow> Env" where
  "environment answers =
     \<lparr>createFails = False, fileCloseFails = False, replaceFails = False, chtimesFails = False,
      clock = minutes 1061890560, script = answers\<rparr>"

definition options0 :: DownloadOptions where
  "options0 = \<lparr>DownloadOptions.ExpectedSize = 0, ExpectedLastModified = 0, MaxRetry = 0\<rparr>"

definition lengthHundred :: Attempt where
  "lengthHundred = answer (Some (response 200 [(''Content-Length'', ''100'')] [] EndOfBody))"

definition writeFails :: Attempt where
  "writeFails = answer (Some (response 200 [(''Accept-Ranges'', ''bytes'')] [1, 2, 3] WriteError))"

definition remainder :: Attempt where
  "remainder = answer (Some (response 206 [] [4, 5] EndOfBody))"

definition notFound :: Attempt where
  "notFound = answer (Some (response 404 [] [1, 2, 3] EndOfBody))"

definition plain :: Attempt where
  "plain = answer (Some (response 200 [] [1, 2, 3, 4, 5] EndOfBody))"

definition noLength :: Attempt where
  "noLength = answer (Some (response 206 [] (replicate 60 2) EndOfBody))"

definition lengthFifty :: Attempt where
  "lengthFifty = answer (Some (response 206 [(''Content-Length'', ''50'')] (replicate 50 2) EndOfBody))"

definition stamped :: Attempt where
  "stamped = answer (Some (response 200
     [(''Content-Length'', ''5''), (''Last-Modified'', ''Wed, 01 Jan 2020 00:00:30 GMT'')]
     [1, 2, 3, 4, 5] EndOfBody))"

definition oneTime :: "string \<Rightarrow> instant option" where
  "oneTime raw =
     (if raw = ''Wed, 01 Jan 2020 00:00:30 GMT'' then Some (minutes 1061890560 + 30000000000)
      else None)"



text \<open>
  The first \<open>n\<close> attempts of a download, each made in the state that the download has
  reached by then, end in a retryable error (and the world has an answer for each).
\<close>

fun retryableRun ::
  "(string \<Rightarrow> instant option) \<Rightarrow> Attempt list \<Rightarrow> bool \<Rightarrow> downloadContext \<times> World \<Rightarrow> nat \<Rightarrow> bool"
where
  "retryableRun timeParse answers canResume s 0 = True"
| "retryableRun timeParse [] canResume s (Suc n) = False"
| "retryableRun timeParse (a # answers) canResume s (Suc n) =
     (case attempt timeParse a canResume s of
        (Return r, s') \<Rightarrow> False
      | (RetryOrErr e canResume', dc1, w1) \<Rightarrow>
          (case backoff (curRetry dc1 + 1) (draw a) of
             None \<Rightarrow> False
           | Some d \<Rightarrow>
               retryableRun timeParse answers canResume'
                 (dc1\<lparr>curRetry := curRetry dc1 + 1\<rparr>, w1\<lparr>slept := slept w1 @ [d]\<rparr>) n))"


section \<open>Properties of the diff\<close>

lemma drainLocals_eq: "drainLocals ls st = st\<lparr>extra := extra st @ ls\<rparr>"
  by (induction ls arbitrary: st) auto

lemma drainRemotes_eq: "drainRemotes rs st = st\<lparr>missing := missing st @ rs\<rparr>"
  by (induction rs arbitrary: st) auto

lemma matched_Nil [simp]: "matched [] rs = 0" "matched ls [] = 0"
  by (simp_all add: matched_def)

lemma matched_less:
  assumes "sorted (map RemoteFile.SortName (r # rs))" "LocalFile.SortName l < RemoteFile.SortName r"
  shows "matched (l # ls) (r # rs) = matched ls (r # rs)"
proof -
  have "LocalFile.SortName l \<notin> set (map RemoteFile.SortName (r # rs))"
    using assms by auto
  then have "LocalFile.SortName l \<notin># mset (map RemoteFile.SortName (r # rs))"
    by (metis set_mset_mset)
  then have "add_mset (LocalFile.SortName l) (mset (map LocalFile.SortName ls))
      \<inter># mset (map RemoteFile.SortName (r # rs))
    = mset (map LocalFile.SortName ls) \<inter># mset (map RemoteFile.SortName (r # rs))"
    by (rule inter_add_left1)
  then show ?thesis
    unfolding matched_def by simp
qed

lemma matched_greater:
  assumes "sorted (map LocalFile.SortName (l # ls))" "RemoteFile.SortName r < LocalFile.SortName l"
  shows "matched (l # ls) (r # rs) = matched (l # ls) rs"
proof -
  have "RemoteFile.SortName r \<notin> set (map LocalFile.SortName (l # ls))"
    using assms by auto
  then have "RemoteFile.SortName r \<notin># mset (map LocalFile.SortName (l # ls))"
    by (metis set_mset_mset)
  then have "mset (map LocalFile.SortName (l # ls))
      \<inter># add_mset (RemoteFile.SortName r) (mset (map RemoteFile.SortName rs))
    = mset (map LocalFile.SortName (l # ls)) \<inter># mset (map RemoteFile.SortName rs)"
    by (rule inter_add_right1)
  then show ?thesis
    unfolding matched_def by simp
qed

lemma matched_equal:
  assumes "LocalFile.SortName l = RemoteFile.SortName r"
  shows "matched (l # ls) (r # rs) = Suc (matched ls rs)"
  using assms by (simp add: matched_def)

lemma mergeLoop_count:
  assumes "sorted (map LocalFile.SortName ls)" "sorted (map RemoteFile.SortName rs)"
    "mergeLoop ls rs st = (ls', rs', st')"
  shows "length (extra st') + length ls' + matched ls rs = length (extra st) + length ls
       \<and> length (missing st') + length rs' + matched ls rs = length (missing st) + length rs
       \<and> (ls' = [] \<or> rs' = [])"
  using assms
proof (induction ls rs st rule: mergeLoop.induct)
  case (1 l ls r rs st)
  have sl: "sorted (map LocalFile.SortName ls)" and sr: "sorted (map RemoteFile.SortName rs)"
    using "1.prems" by simp_all
  consider "LocalFile.SortName l < RemoteFile.SortName r"
    | "RemoteFile.SortName r < LocalFile.SortName l"
    | "LocalFile.SortName l = RemoteFile.SortName r"
    by force
  then show ?case
  proof cases
    case 1
    note lt = this
    have run: "mergeLoop ls (r # rs) (st\<lparr>extra := extra st @ [l]\<rparr>) = (ls', rs', st')"
      using "1.prems"(3) lt by simp
    from "1.IH"(1) [OF lt sl "1.prems"(2) run] matched_less [OF "1.prems"(2) lt]
    show ?thesis by simp
  next
    case 2
    note gt = this
    then have nlt: "\<not> LocalFile.SortName l < RemoteFile.SortName r" by simp
    have run: "mergeLoop (l # ls) rs (st\<lparr>missing := missing st @ [r]\<rparr>) = (ls', rs', st')"
      using "1.prems"(3) gt nlt by simp
    from "1.IH"(2) [OF nlt gt "1.prems"(1) sr run] matched_greater [OF "1.prems"(1) gt]
    show ?thesis by simp
  next
    case 3
    note eq = this
    then have nlt: "\<not> LocalFile.SortName l < RemoteFile.SortName r"
      and ngt: "\<not> RemoteFile.SortName r < LocalFile.SortName l" by simp_all
    let ?st = "if \<not> Equal (LocalFile.Timestamp l) (RemoteFile.Timestamp r)
              \<or> LocalFile.Size l \<noteq> RemoteFile.Size r
           then st\<lparr>changed := changed st @ [r]\<rparr> else st"
    have run: "mergeLoop ls rs ?st = (ls', rs', st')"
      using "1.prems"(3) nlt ngt by simp
    have keep: "extra ?st = extra st" "missing ?st = missing st" by simp_all
    from "1.IH"(3) [OF nlt ngt sl sr run] matched_equal [OF eq, of ls rs] keep
    show ?thesis by simp
  qed
qed simp_all

lemma mergeLoop_sub:
  assumes "mergeLoop ls rs st = (ls', rs', st')"
  shows "mset (extra st') + mset ls' \<subseteq># mset (extra st) + mset ls
       \<and> mset (missing st') + mset (changed st') + mset rs'
            \<subseteq># mset (missing st) + mset (changed st) + mset rs
       \<and> (\<forall>c \<in> set (changed st'). c \<in> set (changed st)
            \<or> (\<exists>l \<in> set ls. LocalFile.SortName l = RemoteFile.SortName c))"
  using assms
proof (induction ls rs st rule: mergeLoop.induct)
  case (1 l ls r rs st)
  consider "LocalFile.SortName l < RemoteFile.SortName r"
    | "RemoteFile.SortName r < LocalFile.SortName l"
    | "LocalFile.SortName l = RemoteFile.SortName r"
    by force
  then show ?case
  proof cases
    case 1
    note lt = this
    have run: "mergeLoop ls (r # rs) (st\<lparr>extra := extra st @ [l]\<rparr>) = (ls', rs', st')"
      using "1.prems" lt by simp
    from "1.IH"(1) [OF lt run] show ?thesis
      by (auto simp: ac_simps)
  next
    case 2
    note gt = this
    then have nlt: "\<not> LocalFile.SortName l < RemoteFile.SortName r" by simp
    have run: "mergeLoop (l # ls) rs (st\<lparr>missing := missing st @ [r]\<rparr>) = (ls', rs', st')"
      using "1.prems" gt nlt by simp
    from "1.IH"(2) [OF nlt gt run] show ?thesis
      by (auto simp: ac_simps)
  next
    case 3
    note eq = this
    then have nlt: "\<not> LocalFile.SortName l < RemoteFile.SortName r"
      and ngt: "\<not> RemoteFile.SortName r < LocalFile.SortName l" by simp_all
    let ?c = "\<not> Equal (LocalFile.Timestamp l) (RemoteFile.Timestamp r)
              \<or> LocalFile.Size l \<noteq> RemoteFile.Size r"
    let ?st = "if ?c then st\<lparr>changed := changed st @ [r]\<rparr> else st"
    have run: "mergeLoop ls rs ?st = (ls', rs', st')"
      using "1.prems" nlt ngt by simp
    note ih = "1.IH"(3) [OF nlt ngt run]
    have a: "mset (extra st') + mset ls' \<subseteq># mset (extra st) + mset (l # ls)"
    proof -
      have "mset (extra st') + mset ls' \<subseteq># mset (extra st) + mset ls"
        using ih by (simp split: if_splits)
      also have "\<dots> \<subseteq># mset (extra st) + mset (l # ls)" by simp
      finally show ?thesis .
    qed
    have b: "mset (missing st') + mset (changed st') + mset rs'
            \<subseteq># mset (missing st) + mset (changed st) + mset (r # rs)"
    proof -
      have "mset (missing st') + mset (changed st') + mset rs'
            \<subseteq># mset (missing ?st) + mset (changed ?st) + mset rs"
        using ih by blast
      also have "\<dots> \<subseteq># mset (missing st) + mset (changed st) + mset (r # rs)"
        by simp
      finally show ?thesis .
    qed
    have c: "\<forall>c \<in> set (changed st'). c \<in> set (changed st)
            \<or> (\<exists>l \<in> set (l # ls). LocalFile.SortName l = RemoteFile.SortName c)"
      using ih eq by (auto split: if_splits)
    from a b c show ?thesis by blast
  qed
qed simp_all

text \<open>
  C1. The test table of the repository (\<open>single file no remote size\<close>) expects no change
  for a remote of unknown size (-1) whose name and time equal the local file's. The loop of
  \<open>mainExit\<close> compares the sizes as they are and appends the remote to \<open>changed\<close>.
\<close>

theorem unknown_size_is_changed:
  "LocalFile.SortName localFoo = RemoteFile.SortName remoteFooNoSize
   \<and> Equal (LocalFile.Timestamp localFoo) (RemoteFile.Timestamp remoteFooNoSize)
   \<and> RemoteFile.Size remoteFooNoSize = - 1
   \<and> diffFiles [localFoo] [remoteFooNoSize]
       = \<lparr>extra = [], missing = [], changed = [remoteFooNoSize]\<rparr>"
  by (simp add: diffFiles_def localFoo_def remoteFooNoSize_def Equal_def)

text \<open>
  C2. A remote whose time is the zero instant (documented as unknown) and whose name and
  size equal the local file's: the loop of \<open>mainExit\<close> compares the times as they are and
  appends the remote to \<open>changed\<close>.
\<close>

theorem unknown_time_is_changed:
  "LocalFile.SortName localFoo = RemoteFile.SortName remoteFooNoTime
   \<and> LocalFile.Size localFoo = RemoteFile.Size remoteFooNoTime
   \<and> IsZero (RemoteFile.Timestamp remoteFooNoTime)
   \<and> diffFiles [localFoo] [remoteFooNoTime]
       = \<lparr>extra = [], missing = [], changed = [remoteFooNoTime]\<rparr>"
  by (simp add: diffFiles_def localFoo_def remoteFooNoTime_def Equal_def IsZero_def minutes_def)

text \<open>
  C8. For two listings sorted ascending by sort name, with \<open>matched\<close> the number of
  equal-sort-name pairs: the extra files and the pairs count the locals, the missing files
  and the pairs count the remotes; \<open>extra\<close> is taken from the locals, \<open>missing\<close> and \<open>changed\<close>
  are taken, without sharing an element, from the remotes; and every changed remote has a
  local file of the same sort name.
\<close>

theorem diff_partition:
  assumes "sorted (map LocalFile.SortName locals)" "sorted (map RemoteFile.SortName remotes)"
  shows "length (extra (diffFiles locals remotes)) + matched locals remotes = length locals
       \<and> length (missing (diffFiles locals remotes)) + matched locals remotes = length remotes
       \<and> mset (extra (diffFiles locals remotes)) \<subseteq># mset locals
       \<and> mset (missing (diffFiles locals remotes)) + mset (changed (diffFiles locals remotes))
            \<subseteq># mset remotes
       \<and> (\<forall>c \<in> set (changed (diffFiles locals remotes)).
            \<exists>l \<in> set locals. LocalFile.SortName l = RemoteFile.SortName c)"
proof -
  obtain ls rs st where run:
    "mergeLoop locals remotes \<lparr>extra = [], missing = [], changed = []\<rparr> = (ls, rs, st)"
    by (metis prod_cases3)
  have d: "diffFiles locals remotes = st\<lparr>extra := extra st @ ls, missing := missing st @ rs\<rparr>"
    by (simp add: diffFiles_def run drainLocals_eq drainRemotes_eq)
  from mergeLoop_count [OF assms run] mergeLoop_sub [OF run]
  show ?thesis unfolding d by (auto simp: ac_simps)
qed

theorem diff_partition_witness:
  "sorted (map LocalFile.SortName localsE) \<and> sorted (map RemoteFile.SortName remotesE)
   \<and> matched localsE remotesE = 2
   \<and> length (extra (diffFiles localsE remotesE)) + matched localsE remotesE = length localsE
   \<and> length (missing (diffFiles localsE remotesE)) + matched localsE remotesE = length remotesE
   \<and> map RemoteFile.Name (changed (diffFiles localsE remotesE)) = [''pool'']"
proof -
  have s: "sorted (map LocalFile.SortName localsE)" "sorted (map RemoteFile.SortName remotesE)"
    by (simp_all add: localsE_def remotesE_def)
  have m: "matched localsE remotesE = 2"
    by (simp add: matched_def localsE_def remotesE_def)
  have c: "map RemoteFile.Name (changed (diffFiles localsE remotesE)) = [''pool'']"
    by (simp add: diffFiles_def localsE_def remotesE_def Equal_def minutes_def)
  from diff_partition [OF s] s m c show ?thesis by simp
qed

section \<open>Properties of the backoff\<close>

lemma and_one_odd: "((e::64 word) AND 1 = 1) \<longleftrightarrow> unat e mod 2 = 1"
proof -
  have "(e AND 1 = 1) \<longleftrightarrow> (unat (e mod 2) = unat (1::64 word))"
    unfolding and_one_eq by (simp only: word_unat_eq_iff)
  also have "\<dots> \<longleftrightarrow> unat e mod 2 = 1"
    by (simp add: unat_mod)
  finally show ?thesis .
qed

lemma unat_half_split:
  fixes e :: "64 word"
  shows "unat e = 2 * unat (drop_bit 1 e) + (if e AND 1 = 1 then 1 else 0)"
proof -
  have a: "unat (drop_bit 1 e) = unat e div 2"
    unfolding unat_drop_bit_eq by (simp add: drop_bit_eq_div)
  show ?thesis unfolding a and_one_odd by presburger
qed

lemma intPowLoop_eq: "intPowLoop base exp result = result * base ^ unat exp"
proof (induction base exp result rule: intPowLoop.induct)
  case (1 base exp result)
  let ?e = "drop_bit 1 exp"
  let ?r = "if exp AND 1 = 1 then result * base else result"
  have pw: "base ^ unat exp = (base * base) ^ unat ?e * (if exp AND 1 = 1 then base else 1)"
    by (subst unat_half_split [of exp]) (simp add: power_add power_mult power2_eq_square)
  show ?case
  proof (cases "?e = 0")
    case True
    then have "intPowLoop base exp result = ?r"
      by (subst intPowLoop.simps) (simp add: Let_def)
    with True pw show ?thesis by simp
  next
    case False
    then have "intPowLoop base exp result = intPowLoop (base * base) ?e ?r"
      by (subst intPowLoop.simps) (simp add: Let_def)
    also have "\<dots> = ?r * (base * base) ^ unat ?e"
      using "1.IH" [OF refl refl False] .
    finally show ?thesis using pw by (simp add: ac_simps)
  qed
qed

lemma intPow_eq: "intPow base exp = base ^ unat exp"
  by (simp add: intPow_def intPowLoop_eq)

lemma sint_of_nat_small:
  assumes "n < 2 ^ 63"
  shows "sint (word_of_nat n :: 64 word) = int n"
proof -
  have "sint (word_of_nat n :: 64 word) = signed_take_bit 63 (int n)"
    using sint_sbintrunc' [where 'a = 64, of "int n"] by simp
  also have "\<dots> = int n"
    using assms by (simp add: signed_take_bit_int_eq_self)
  finally show ?thesis .
qed

lemma unat_of_nat_small:
  assumes "n < 2 ^ 63"
  shows "unat (word_of_nat n :: 64 word) = n"
  using assms by (simp add: unat_of_nat)

lemma backoff_value:
  fixes curRetry :: uint
  defines "b \<equiv> 500 * 2 ^ min (unat curRetry) 10"
  shows "backoff curRetry rnd = Some (word_of_nat ((b + rnd mod (b div 10)) * 1000000))"
proof -
  define e :: uint where "e = (if curRetry > 10 then 10 else curRetry)"
  have ue: "unat e = min (unat curRetry) 10"
    by (auto simp: e_def word_less_nat_alt min_def)
  then have le: "unat e \<le> 10" by simp
  have pw: "(2::nat) ^ unat e \<le> 2 ^ 10"
    using le by (intro power_increasing) simp_all
  have bb: "b = 500 * 2 ^ unat e" by (simp add: b_def ue)
  have b_le: "b \<le> 512000" using pw by (simp add: bb)
  have b_ge: "500 \<le> b" by (simp add: bb)
  have b10: "b div 10 = 50 * 2 ^ unat e" by (simp add: bb)
  have ms: "intPow 2 e * 500 = (word_of_nat b :: 64 word)"
    by (simp add: intPow_eq bb)
  have sms: "sint (word_of_nat b :: 64 word) = int b"
    using b_le by (intro sint_of_nat_small) simp
  have d10: "(word_of_int (sint (word_of_nat b :: 64 word) sdiv 10) :: 64 word) = word_of_nat (b div 10)"
  proof -
    have "int b sdiv 10 = int (b div 10)"
      by (simp add: signed_divide_int_def zdiv_int sgn_if)
    then show ?thesis unfolding sms by simp
  qed
  have pos: "\<not> (word_of_nat (b div 10) :: 64 word) \<le>s 0"
  proof -
    have "sint (word_of_nat (b div 10) :: 64 word) = int (b div 10)"
      using b_le by (intro sint_of_nat_small) simp
    moreover have "0 < b div 10" using b_ge by simp
    ultimately show ?thesis by (simp add: word_sle_eq)
  qed
  have u10: "unat (word_of_nat (b div 10) :: 64 word) = b div 10"
    using b_le by (intro unat_of_nat_small) simp
  show ?thesis
    unfolding backoff_def e_def [symmetric] Let_def ms d10 Int63n_def Millisecond_def
    using pos by (simp add: u10)
qed

text \<open>
  C7. For every retry count and every random draw, \<open>backoff\<close> returns a duration of a
  whole number \<open>ms\<close> of milliseconds with \<open>base \<le> ms < base + base div 10\<close>, where
  \<open>base = 500 * 2 ^ min k 10\<close>; so \<open>ms\<close> is less than 1.1 times \<open>base\<close>, and \<open>base\<close> is at
  most 512000 ms. The duration in nanoseconds does not overflow.
\<close>

theorem backoff_bounds:
  "\<exists>ms. backoff k rnd = Some (word_of_nat ms * Millisecond)
     \<and> sint (word_of_nat ms * Millisecond :: int64) = int ms * 1000000
     \<and> 500 * 2 ^ min (unat k) 10 \<le> ms
     \<and> ms < 500 * 2 ^ min (unat k) 10 + (500 * 2 ^ min (unat k) 10) div 10
     \<and> 10 * ms < 11 * (500 * 2 ^ min (unat k) 10)
     \<and> (500::nat) * 2 ^ min (unat k) 10 \<le> 512000"
proof -
  define b :: nat where "b = 500 * 2 ^ min (unat k) 10"
  define ms where "ms = b + rnd mod (b div 10)"
  have "(2::nat) ^ min (unat k) 10 \<le> 2 ^ 10"
    by (intro power_increasing) simp_all
  then have b_le: "b \<le> 512000" by (simp add: b_def)
  have "(2::nat) ^ min (unat k) 10 \<ge> 1" by simp
  then have b_ge: "500 \<le> b" unfolding b_def by linarith
  have pos: "0 < b div 10" using b_ge by simp
  have j: "rnd mod (b div 10) < b div 10" using pos by simp
  have lo: "b \<le> ms" by (simp add: ms_def)
  have hi: "ms < b + b div 10" using j by (simp add: ms_def)
  have hi11: "10 * ms < 11 * b" using hi by linarith
  have small: "ms * 1000000 < 2 ^ 63" using hi b_le by simp
  have val: "backoff k rnd = Some (word_of_nat ms * Millisecond)"
    using backoff_value [of k rnd] by (simp add: b_def ms_def Millisecond_def)
  have "sint (word_of_nat (ms * 1000000) :: int64) = int (ms * 1000000)"
    using small by (rule sint_of_nat_small)
  then have s: "sint (word_of_nat ms * Millisecond :: int64) = int ms * 1000000"
    by (simp add: Millisecond_def)
  from val s lo hi hi11 b_le show ?thesis
    unfolding b_def by blast
qed

section \<open>Properties of the download engine\<close>

subsection \<open>One attempt and the retry loop\<close>

lemma dropPrevious_keeps:
  assumes "dropPrevious a cr (dc, w) = Inr (dc2, w2)"
  shows "curRetry dc2 = curRetry dc \<and> opts dc2 = opts dc \<and> sent w2 = sent w \<and> slept w2 = slept w"
  using assms by (auto simp: dropPrevious_def split: if_splits)

lemma checkContentLength_keeps:
  assumes "checkContentLength cl cr dc = Inr dc3"
  shows "curRetry dc3 = curRetry dc \<and> bytesRead dc3 = bytesRead dc
       \<and> MaxRetry (opts dc3) = MaxRetry (opts dc)
       \<and> ExpectedLastModified (opts dc3) = ExpectedLastModified (opts dc)"
  using assms by (auto simp: checkContentLength_def Let_def split: if_splits)

lemma checkLastModified_keeps:
  assumes "checkLastModified mt dc = Inr dc4"
  shows "curRetry dc4 = curRetry dc \<and> bytesRead dc4 = bytesRead dc
       \<and> MaxRetry (opts dc4) = MaxRetry (opts dc)
       \<and> DownloadOptions.ExpectedSize (opts dc4) = DownloadOptions.ExpectedSize (opts dc)"
  using assms by (auto simp: checkLastModified_def split: if_splits)

lemma copyBody_keeps:
  assumes "copyBody resp cr (dc, w) = (out, dc', w')"
  shows "curRetry dc' = curRetry dc \<and> opts dc' = opts dc \<and> sent w' = sent w \<and> slept w' = slept w"
  using assms by (auto simp: copyBody_def Let_def split: if_splits)

lemma copyBody_retry:
  assumes "copyBody resp cr (dc, w) = (RetryOrErr e c, dc', w')"
  shows "copyEnded resp \<noteq> EndOfBody \<and> e = Download (copyEnded resp) \<and> c = cr"
  using assms by (auto simp: copyBody_def Let_def split: if_splits)

lemma attempt_cases:
  assumes "attempt tp a cr (dc, w) = (out, dc', w')"
  shows "curRetry dc' = curRetry dc \<and> MaxRetry (opts dc') = MaxRetry (opts dc) \<and> slept w' = slept w
       \<and> (sent w' = sent w \<or> sent w' = sent w @ [if cr \<and> 0 <s bytesRead dc then Some (bytesRead dc) else None])"
proof (cases "newRequestFails a")
  case True
  with assms show ?thesis by (simp add: attempt_def)
next
  case nf: False
  define w1 where "w1 = w\<lparr>sent := sent w @ [if cr \<and> 0 <s bytesRead dc then Some (bytesRead dc) else None]\<rparr>"
  show ?thesis
  proof (cases "doResult a")
    case None
    with assms nf show ?thesis by (auto simp: attempt_def Let_def)
  next
    case (Some resp)
    define cr' where "cr' = (if \<not> cr then parseCanResume (Header resp) else cr)"
    show ?thesis
    proof (cases "dropPrevious a cr' (dc, w1)")
      case (Inl e)
      with assms nf Some show ?thesis
        by (auto simp: attempt_def Let_def cr'_def w1_def)
    next
      case (Inr s2)
      obtain dc2 w2 where s2: "s2 = (dc2, w2)" by (cases s2)
      note k2 = dropPrevious_keeps [OF Inr [unfolded s2]]
      show ?thesis
      proof (cases "checkContentLength (parseContentLength (Header resp)) cr' dc2")
        case (Inl e)
        with assms nf Some Inr s2 k2 show ?thesis
          by (auto simp: attempt_def Let_def cr'_def w1_def)
      next
        case i3: (Inr dc3)
        note k3 = checkContentLength_keeps [OF i3]
        show ?thesis
        proof (cases "checkLastModified (parseLastModifiedMinute tp (Header resp)) dc3")
          case (Inl e)
          with assms nf Some Inr s2 k2 i3 k3 show ?thesis
            by (auto simp: attempt_def Let_def cr'_def w1_def)
        next
          case i4: (Inr dc4)
          note k4 = checkLastModified_keeps [OF i4]
          have "copyBody resp cr' (dc4, w2) = (out, dc', w')"
            using assms nf Some Inr s2 i3 i4
            by (auto simp: attempt_def Let_def cr'_def w1_def)
          from copyBody_keeps [OF this] k2 k3 k4 show ?thesis
            by (auto simp: w1_def)
        qed
      qed
    qed
  qed
qed

lemma attempt_retry:
  assumes "attempt tp a cr (dc, w) = (RetryOrErr e c, dc', w')"
  shows "(doResult a = None \<and> e = DoRequest)
       \<or> (\<exists>resp. doResult a = Some resp \<and> copyEnded resp \<noteq> EndOfBody \<and> e = Download (copyEnded resp))"
  using assms
  by (auto simp: attempt_def Let_def split: if_splits option.splits sum.splits prod.splits
      dest: copyBody_retry)


lemma backoff_Some: "\<exists>d. backoff k rnd = Some d"
  using backoff_value [of k rnd] by blast

lemma downloadImpl_atLimit:
  "atLimit dc \<Longrightarrow>
     downloadImpl tp scr cr (dc, w) = Some (Some (MaxRetriesExceeded (MaxRetry (opts dc))), dc, w)"
  by (cases scr) simp_all

lemma downloadImpl_return:
  "\<not> atLimit dc \<Longrightarrow> attempt tp a cr (dc, w) = (Return r, dc1, w1) \<Longrightarrow>
     downloadImpl tp (a # rest) cr (dc, w) = Some (r, dc1, w1)"
  by simp

lemma downloadImpl_exhausted:
  "\<not> atLimit dc \<Longrightarrow> attempt tp a cr (dc, w) = (RetryOrErr e c, dc1, w1) \<Longrightarrow>
     atLimit (dc1\<lparr>curRetry := curRetry dc1 + 1\<rparr>) \<Longrightarrow>
     downloadImpl tp (a # rest) cr (dc, w) = Some (Some e, dc1\<lparr>curRetry := curRetry dc1 + 1\<rparr>, w1)"
  by (simp add: Let_def)

lemma downloadImpl_retry:
  "\<not> atLimit dc \<Longrightarrow> attempt tp a cr (dc, w) = (RetryOrErr e c, dc1, w1) \<Longrightarrow>
     \<not> atLimit (dc1\<lparr>curRetry := curRetry dc1 + 1\<rparr>) \<Longrightarrow>
     backoff (curRetry dc1 + 1) (draw a) = Some d \<Longrightarrow>
     downloadImpl tp (a # rest) cr (dc, w)
       = downloadImpl tp rest c (dc1\<lparr>curRetry := curRetry dc1 + 1\<rparr>, w1\<lparr>slept := slept w1 @ [d]\<rparr>)"
  by (simp add: Let_def)


lemma failsRetryably_run:
  assumes "n \<le> length scr" "\<forall>a \<in> set (take n scr). failsRetryably tp a"
  shows "retryableRun tp scr cr s n"
  using assms
proof (induction n arbitrary: scr cr s)
  case 0
  show ?case by simp
next
  case (Suc n)
  then obtain a rest where scr: "scr = a # rest" by (cases scr) auto
  with Suc.prems have fa: "failsRetryably tp a" by simp
  then obtain e c dc1 w1 where att: "attempt tp a cr s = (RetryOrErr e c, dc1, w1)"
    unfolding failsRetryably_def by (metis prod.exhaust)
  obtain d where d: "backoff (curRetry dc1 + 1) (draw a) = Some d"
    using backoff_Some by blast
  have "retryableRun tp rest c (dc1\<lparr>curRetry := curRetry dc1 + 1\<rparr>, w1\<lparr>slept := slept w1 @ [d]\<rparr>) n"
    using Suc.prems scr by (intro Suc.IH) auto
  with att d scr show ?case by simp
qed

lemma failsRetryably_noResult: "failsRetryably tp (answer None)"
  unfolding failsRetryably_def
proof (intro allI)
  fix cr and s :: "downloadContext \<times> World"
  obtain dc w where s: "s = (dc, w)" by (cases s)
  show "\<exists>e cr' s'. attempt tp (answer None) cr s = (RetryOrErr e cr', s')"
    unfolding s by (simp add: attempt_def answer_def Let_def)
qed


lemma attempt_return_error:
  assumes "attempt tp a cr (dc, w) = (Return (Some e), dc', w')"
  shows "e \<noteq> DoRequest \<and> (\<forall>k. e \<noteq> Download k) \<and> e \<noteq> BackoffPanic \<and> (\<forall>n. e \<noteq> MaxRetriesExceeded n)"
  using assms
  by (auto simp: attempt_def Let_def dropPrevious_def checkContentLength_def checkLastModified_def
      copyBody_def split: if_splits option.splits sum.splits prod.splits)

text \<open>
  C4 (amended). One pass through \<open>downloadImpl\<close> hands an error to the retry closure only
  when the HTTP request failed or when the copy of the body ended in an error, be it an
  error reading the body or an error writing the temporary file. Whatever else the pass
  ends in (success, a validation failure, a failure to create the request, to seek, to
  truncate or to close the body) is returned at once, whatever \<open>MaxRetry\<close> and whatever the
  world would answer next, with no retry counted and no pause.
\<close>

theorem retry_only_for_request_and_copy_errors:
  assumes "\<not> atLimit dc" "attempt tp a cr (dc, w) = (out, dc1, w1)"
  shows "(\<forall>r. out = Return r \<longrightarrow>
            (\<forall>rest. downloadImpl tp (a # rest) cr (dc, w) = Some (r, dc1, w1))
            \<and> curRetry dc1 = curRetry dc \<and> slept w1 = slept w
            \<and> length (sent w1) \<le> Suc (length (sent w))
            \<and> (\<forall>e. r = Some e \<longrightarrow> e \<noteq> DoRequest \<and> (\<forall>k. e \<noteq> Download k)))
       \<and> (\<forall>e c. out = RetryOrErr e c \<longrightarrow>
            (doResult a = None \<and> e = DoRequest)
            \<or> (\<exists>resp. doResult a = Some resp \<and> copyEnded resp \<noteq> EndOfBody
                 \<and> e = Download (copyEnded resp)))"
proof (intro conjI allI impI)
  fix r rest assume "out = Return r"
  with assms show "downloadImpl tp (a # rest) cr (dc, w) = Some (r, dc1, w1)"
    by (simp add: downloadImpl_return)
next
  fix r assume "out = Return r"
  from attempt_cases [OF assms(2)] show "curRetry dc1 = curRetry dc" by simp
next
  fix r assume "out = Return r"
  from attempt_cases [OF assms(2)] show "slept w1 = slept w" by simp
next
  fix r assume "out = Return r"
  from attempt_cases [OF assms(2)] show "length (sent w1) \<le> Suc (length (sent w))" by auto
next
  fix r e assume "out = Return r" "r = Some e"
  with assms(2) attempt_return_error show "e \<noteq> DoRequest" by blast
next
  fix r e k assume "out = Return r" "r = Some e"
  with assms(2) attempt_return_error show "e \<noteq> Download k" by blast
next
  fix e c assume "out = RetryOrErr e c"
  with assms(2) attempt_retry show "(doResult a = None \<and> e = DoRequest)
            \<or> (\<exists>resp. doResult a = Some resp \<and> copyEnded resp \<noteq> EndOfBody
                 \<and> e = Download (copyEnded resp))" by blast
qed

lemma copyBody_status: "copyBody (resp\<lparr>StatusCode := x\<rparr>) cr s = copyBody resp cr s"
  by (cases s) (simp add: copyBody_def Let_def)

lemma dropPrevious_status: "dropPrevious (withStatus g a) cr s = dropPrevious a cr s"
  by (cases s) (simp add: dropPrevious_def withStatus_def)

lemma attempt_withStatus: "attempt tp (withStatus g a) cr s = attempt tp a cr s"
proof -
  obtain dc w where s: "s = (dc, w)" by (cases s)
  have n: "newRequestFails (withStatus g a) = newRequestFails a"
    by (simp add: withStatus_def)
  show ?thesis
  proof (cases "doResult a")
    case None
    then have "doResult (withStatus g a) = None" by (simp add: withStatus_def)
    with None n show ?thesis unfolding s by (simp add: attempt_def)
  next
    case (Some resp)
    then have "doResult (withStatus g a) = Some (resp\<lparr>StatusCode := g (StatusCode resp)\<rparr>)"
      by (simp add: withStatus_def)
    with Some n show ?thesis
      unfolding s
      by (simp add: attempt_def copyBody_status dropPrevious_status
          cong: sum.case_cong prod.case_cong)
  qed
qed

text \<open>
  C5 (amended). The engine never reads the HTTP status: with the status of every response
  replaced by any other, a download has the same outcome. A status other than 200 or 206
  neither fails nor retries a download.
\<close>

theorem status_is_ignored:
  "downloadImpl tp (map (withStatus g) scr) cr s = downloadImpl tp scr cr s"
proof (induction scr arbitrary: cr s)
  case Nil
  show ?case by simp
next
  case (Cons a rest)
  obtain dc w where s: "s = (dc, w)" by (cases s)
  have d: "draw (withStatus g a) = draw a" by (simp add: withStatus_def)
  show ?case
    unfolding s
    by (simp add: attempt_withStatus d Cons.IH Let_def
        split: prod.splits outcome.splits option.splits)
qed

subsection \<open>The state of a successful download\<close>

lemma fileWrite_append:
  assumes "offset f = length (content f)"
  shows "fileWrite f bs = \<lparr>content = content f @ bs, offset = length (content f) + length bs\<rparr>"
  using assms by (simp add: fileWrite_def)

lemma dropPrevious_consistent:
  assumes "consistent (dc, w)" "dropPrevious a cr (dc, w) = Inr (dc2, w2)"
  shows "consistent (dc2, w2)"
  using assms by (auto simp: dropPrevious_def consistent_def split: if_splits)

lemma checkContentLength_size:
  assumes "checkContentLength cl cr dc = Inr dc3"
  shows "0 <s DownloadOptions.ExpectedSize (opts dc) \<longrightarrow>
           DownloadOptions.ExpectedSize (opts dc3) = DownloadOptions.ExpectedSize (opts dc)"
  using assms by (auto simp: checkContentLength_def Let_def split: if_splits)

lemma checkLastModified_time:
  assumes "checkLastModified mt dc = Inr dc4"
  shows "\<not> IsZero (ExpectedLastModified (opts dc)) \<longrightarrow>
           ExpectedLastModified (opts dc4) = ExpectedLastModified (opts dc)"
  using assms by (auto simp: checkLastModified_def split: if_splits)

lemma copyBody_consistent:
  assumes "consistent (dc, w)" "copyBody resp cr (dc, w) = (out, dc', w')"
  shows "consistent (dc', w')
       \<and> (out = Return None \<longrightarrow> 0 <s DownloadOptions.ExpectedSize (opts dc') \<longrightarrow>
            bytesRead dc' = DownloadOptions.ExpectedSize (opts dc'))"
  using assms
  by (auto simp: copyBody_def consistent_def Let_def fileWrite_append split: if_splits)

lemma attempt_consistent:
  assumes "consistent (dc, w)" "attempt tp a cr (dc, w) = (out, dc', w')"
  shows "consistent (dc', w')
       \<and> (out = Return None \<longrightarrow> 0 <s DownloadOptions.ExpectedSize (opts dc') \<longrightarrow>
            bytesRead dc' = DownloadOptions.ExpectedSize (opts dc'))
       \<and> (0 <s DownloadOptions.ExpectedSize (opts dc) \<longrightarrow>
            DownloadOptions.ExpectedSize (opts dc') = DownloadOptions.ExpectedSize (opts dc))
       \<and> (\<not> IsZero (ExpectedLastModified (opts dc)) \<longrightarrow>
            ExpectedLastModified (opts dc') = ExpectedLastModified (opts dc))"
proof (cases "newRequestFails a")
  case True
  with assms show ?thesis by (auto simp: attempt_def)
next
  case nf: False
  define w1 where "w1 = w\<lparr>sent := sent w @ [if cr \<and> 0 <s bytesRead dc then Some (bytesRead dc) else None]\<rparr>"
  have c1: "consistent (dc, w1)" using assms(1) by (simp add: consistent_def w1_def)
  show ?thesis
  proof (cases "doResult a")
    case None
    with assms nf c1 show ?thesis by (auto simp: attempt_def Let_def w1_def)
  next
    case (Some resp)
    define cr' where "cr' = (if \<not> cr then parseCanResume (Header resp) else cr)"
    show ?thesis
    proof (cases "dropPrevious a cr' (dc, w1)")
      case (Inl e)
      with assms nf Some c1 show ?thesis
        by (auto simp: attempt_def Let_def cr'_def w1_def)
    next
      case (Inr s2)
      obtain dc2 w2 where s2: "s2 = (dc2, w2)" by (cases s2)
      note k2 = dropPrevious_keeps [OF Inr [unfolded s2]]
      note c2 = dropPrevious_consistent [OF c1 Inr [unfolded s2]]
      show ?thesis
      proof (cases "checkContentLength (parseContentLength (Header resp)) cr' dc2")
        case (Inl e)
        with assms nf Some Inr s2 k2 c2 show ?thesis
          by (auto simp: attempt_def Let_def cr'_def w1_def)
      next
        case i3: (Inr dc3)
        note k3 = checkContentLength_keeps [OF i3]
        note z3 = checkContentLength_size [OF i3]
        have c3: "consistent (dc3, w2)" using c2 k3 by (simp add: consistent_def)
        show ?thesis
        proof (cases "checkLastModified (parseLastModifiedMinute tp (Header resp)) dc3")
          case (Inl e)
          with assms nf Some Inr s2 i3 have "out = Return (Some e)" "dc' = dc3" "w' = w2"
            by (auto simp: attempt_def Let_def cr'_def w1_def)
          with c3 k2 k3 z3 show ?thesis by simp
        next
          case i4: (Inr dc4)
          note k4 = checkLastModified_keeps [OF i4]
          note t4 = checkLastModified_time [OF i4]
          have c4: "consistent (dc4, w2)" using c3 k4 by (simp add: consistent_def)
          have cb: "copyBody resp cr' (dc4, w2) = (out, dc', w')"
            using assms nf Some Inr s2 i3 i4
            by (simp add: attempt_def Let_def cr'_def w1_def)
          from copyBody_consistent [OF c4 cb] copyBody_keeps [OF cb] k2 k3 z3 k4 t4
          show ?thesis by simp
        qed
      qed
    qed
  qed
qed

lemma downloadImpl_consistent:
  assumes "consistent (dc, w)" "downloadImpl tp scr cr (dc, w) = Some (r, dc', w')"
  shows "consistent (dc', w')
       \<and> (r = None \<longrightarrow> 0 <s DownloadOptions.ExpectedSize (opts dc') \<longrightarrow>
            bytesRead dc' = DownloadOptions.ExpectedSize (opts dc'))
       \<and> (0 <s DownloadOptions.ExpectedSize (opts dc) \<longrightarrow>
            DownloadOptions.ExpectedSize (opts dc') = DownloadOptions.ExpectedSize (opts dc))
       \<and> (\<not> IsZero (ExpectedLastModified (opts dc)) \<longrightarrow>
            ExpectedLastModified (opts dc') = ExpectedLastModified (opts dc))"
  using assms
proof (induction scr arbitrary: cr dc w)
  case Nil
  then show ?case by (auto split: if_splits)
next
  case (Cons a rest)
  show ?case
  proof (cases "atLimit dc")
    case True
    with Cons.prems show ?thesis by (auto simp: downloadImpl_atLimit)
  next
    case nl: False
    obtain out dc1 w1 where att: "attempt tp a cr (dc, w) = (out, dc1, w1)"
      by (metis prod_cases3)
    note a1 = attempt_consistent [OF Cons.prems(1) att]
    show ?thesis
    proof (cases out)
      case (Return r')
      with Cons.prems(2) nl att have "r = r'" "dc' = dc1" "w' = w1"
        by (simp_all add: downloadImpl_return)
      with a1 Return show ?thesis by simp
    next
      case (RetryOrErr e c)
      define dc2 where "dc2 = dc1\<lparr>curRetry := curRetry dc1 + 1\<rparr>"
      have c2: "consistent (dc2, w1)" using a1 by (simp add: consistent_def dc2_def)
      have o2: "opts dc2 = opts dc1" by (simp add: dc2_def)
      show ?thesis
      proof (cases "atLimit dc2")
        case True
        with Cons.prems(2) nl att RetryOrErr have "r = Some e" "dc' = dc2" "w' = w1"
          by (simp_all add: downloadImpl_exhausted dc2_def)
        with a1 c2 o2 show ?thesis by simp
      next
        case False
        obtain d where d: "backoff (curRetry dc1 + 1) (draw a) = Some d"
          using backoff_Some by blast
        define w2 where "w2 = w1\<lparr>slept := slept w1 @ [d]\<rparr>"
        have c3: "consistent (dc2, w2)" using c2 by (simp add: consistent_def w2_def)
        have "downloadImpl tp (a # rest) cr (dc, w) = downloadImpl tp rest c (dc2, w2)"
          unfolding dc2_def w2_def
          using downloadImpl_retry [OF nl att [unfolded RetryOrErr] False [unfolded dc2_def] d] .
        with Cons.prems(2) have run: "downloadImpl tp rest c (dc2, w2) = Some (r, dc', w')"
          by simp
        from Cons.IH [OF c3 run] a1 o2 show ?thesis by auto
      qed
    qed
  qed
qed

lemma checkContentLength_learned:
  assumes "checkContentLength cl cr dc = Inr dc3" "0 <s cl" "cr \<or> bytesRead dc = 0"
  shows "DownloadOptions.ExpectedSize (opts dc3) = bytesRead dc + cl"
  using assms by (auto simp: checkContentLength_def Let_def split: if_splits)

lemma checkContentLength_unknown:
  assumes "checkContentLength cl cr dc = Inr dc3" "\<not> 0 <s cl"
  shows "dc3 = dc"
  using assms by (simp add: checkContentLength_def)

lemma checkContentLength_error_unknown:
  assumes "\<not> 0 <s cl"
  shows "checkContentLength cl cr dc = Inr dc"
  using assms by (simp add: checkContentLength_def)

lemma of_nat_zero_small:
  assumes "n < 2 ^ 63" "\<not> 0 <s (word_of_nat n :: int64)"
  shows "n = 0"
proof -
  have "sint (word_of_nat n :: int64) = int n" using assms(1) by (rule sint_of_nat_small)
  with assms(2) show ?thesis by (simp add: word_sless_alt)
qed

lemma dropPrevious_zero:
  assumes "consistent (dc, w)" "dropPrevious a cr (dc, w) = Inr (dc2, w2)"
    "length (content (tmpFile w2)) < 2 ^ 63"
  shows "cr \<or> bytesRead dc2 = 0"
proof (cases "\<not> cr \<and> 0 <s bytesRead dc")
  case True
  with assms(2) show ?thesis by (auto simp: dropPrevious_def split: if_splits)
next
  case False
  with assms(2) have same: "dc2 = dc" "w2 = w" by (auto simp: dropPrevious_def)
  show ?thesis
  proof (cases cr)
    case True then show ?thesis by simp
  next
    case nc: False
    with False have n: "\<not> 0 <s bytesRead dc" by simp
    have b: "bytesRead dc = word_of_nat (length (content (tmpFile w)))"
      using assms(1) by (simp add: consistent_def)
    from of_nat_zero_small [OF assms(3) [unfolded same] n [unfolded b]] b same
    show ?thesis by simp
  qed
qed

lemma copyBody_success:
  assumes "consistent (dc, w)" "copyBody resp cr (dc, w) = (Return None, dc', w')"
  shows "copyEnded resp = EndOfBody \<and> \<not> closeFails resp
       \<and> content (tmpFile w') = content (tmpFile w) @ copied resp"
  using assms
  by (auto simp: copyBody_def consistent_def Let_def fileWrite_append split: if_splits)

lemma attempt_success:
  assumes "consistent (dc, w)" "attempt tp a cr (dc, w) = (Return None, dc', w')"
  shows "\<exists>resp prior. doResult a = Some resp \<and> copyEnded resp = EndOfBody
       \<and> content (tmpFile w') = prior @ copied resp
       \<and> (length (content (tmpFile w')) < 2 ^ 63 \<longrightarrow> 0 <s parseContentLength (Header resp) \<longrightarrow>
            DownloadOptions.ExpectedSize (opts dc')
              = word_of_nat (length prior) + parseContentLength (Header resp))"
proof -
  have nf: "\<not> newRequestFails a" using assms(2) by (auto simp: attempt_def)
  define w1 where "w1 = w\<lparr>sent := sent w @ [if cr \<and> 0 <s bytesRead dc then Some (bytesRead dc) else None]\<rparr>"
  have c1: "consistent (dc, w1)" using assms(1) by (simp add: consistent_def w1_def)
  from assms(2) nf obtain resp where Some: "doResult a = Some resp"
    by (cases "doResult a") (auto simp: attempt_def Let_def)
  define cr' where "cr' = (if \<not> cr then parseCanResume (Header resp) else cr)"
  define cl where "cl = parseContentLength (Header resp)"
  from assms(2) nf Some obtain dc2 w2 dc3 dc4 where
    d: "dropPrevious a cr' (dc, w1) = Inr (dc2, w2)"
    and k: "checkContentLength cl cr' dc2 = Inr dc3"
    and m: "checkLastModified (parseLastModifiedMinute tp (Header resp)) dc3 = Inr dc4"
    and c: "copyBody resp cr' (dc4, w2) = (Return None, dc', w')"
    by (auto simp: attempt_def Let_def cr'_def w1_def cl_def split: sum.splits prod.splits)
  note c2 = dropPrevious_consistent [OF c1 d]
  note k3 = checkContentLength_keeps [OF k]
  note k4 = checkLastModified_keeps [OF m]
  have c4: "consistent (dc4, w2)" using c2 k3 k4 by (simp add: consistent_def)
  note cs = copyBody_success [OF c4 c]
  note ck = copyBody_keeps [OF c]
  have b2: "bytesRead dc2 = word_of_nat (length (content (tmpFile w2)))"
    using c2 by (simp add: consistent_def)
  have learned: "DownloadOptions.ExpectedSize (opts dc')
              = word_of_nat (length (content (tmpFile w2))) + cl"
    if small: "length (content (tmpFile w')) < 2 ^ 63" and pos: "0 <s cl"
  proof -
    have "length (content (tmpFile w2)) < 2 ^ 63" using small cs by simp
    from dropPrevious_zero [OF c1 d this] have "cr' \<or> bytesRead dc2 = 0" .
    from checkContentLength_learned [OF k pos this] k4 ck b2 show ?thesis by simp
  qed
  show ?thesis
    apply (rule exI [of _ resp], rule exI [of _ "content (tmpFile w2)"])
    using Some cs learned by (simp add: cl_def)
qed

lemma attempt_unknown:
  assumes "attempt tp a cr (dc, w) = (out, dc', w')"
    "\<forall>resp. doResult a = Some resp \<longrightarrow> \<not> 0 <s parseContentLength (Header resp)"
  shows "DownloadOptions.ExpectedSize (opts dc') = DownloadOptions.ExpectedSize (opts dc)"
proof (cases "newRequestFails a")
  case True
  with assms show ?thesis by (auto simp: attempt_def)
next
  case nf: False
  define w1 where "w1 = w\<lparr>sent := sent w @ [if cr \<and> 0 <s bytesRead dc then Some (bytesRead dc) else None]\<rparr>"
  show ?thesis
  proof (cases "doResult a")
    case None
    with assms nf show ?thesis by (auto simp: attempt_def Let_def)
  next
    case (Some resp)
    define cr' where "cr' = (if \<not> cr then parseCanResume (Header resp) else cr)"
    from assms(2) Some have ncl: "\<not> 0 <s parseContentLength (Header resp)" by simp
    show ?thesis
    proof (cases "dropPrevious a cr' (dc, w1)")
      case (Inl e)
      with assms nf Some show ?thesis
        by (auto simp: attempt_def Let_def cr'_def w1_def)
    next
      case (Inr s2)
      obtain dc2 w2 where s2: "s2 = (dc2, w2)" by (cases s2)
      note k2 = dropPrevious_keeps [OF Inr [unfolded s2]]
      have k: "checkContentLength (parseContentLength (Header resp)) cr' dc2 = Inr dc2"
        using ncl by (rule checkContentLength_error_unknown)
      show ?thesis
      proof (cases "checkLastModified (parseLastModifiedMinute tp (Header resp)) dc2")
        case (Inl e)
        with assms(1) nf Some Inr s2 k have "dc' = dc2"
          by (auto simp: attempt_def Let_def cr'_def w1_def)
        with k2 show ?thesis by simp
      next
        case i4: (Inr dc4)
        note k4 = checkLastModified_keeps [OF i4]
        have cb: "copyBody resp cr' (dc4, w2) = (out, dc', w')"
          using assms(1) nf Some Inr s2 k i4
          by (simp add: attempt_def Let_def cr'_def w1_def)
        from copyBody_keeps [OF cb] k2 k4 show ?thesis by simp
      qed
    qed
  qed
qed

lemma downloadImpl_unknown:
  assumes "downloadImpl tp scr cr (dc, w) = Some (r, dc', w')"
    "\<forall>a \<in> set scr. \<forall>resp. doResult a = Some resp \<longrightarrow> \<not> 0 <s parseContentLength (Header resp)"
  shows "DownloadOptions.ExpectedSize (opts dc') = DownloadOptions.ExpectedSize (opts dc)"
  using assms
proof (induction scr arbitrary: cr dc w)
  case Nil
  then show ?case by (auto split: if_splits)
next
  case (Cons a rest)
  show ?case
  proof (cases "atLimit dc")
    case True
    with Cons.prems show ?thesis by (auto simp: downloadImpl_atLimit)
  next
    case nl: False
    obtain out dc1 w1 where att: "attempt tp a cr (dc, w) = (out, dc1, w1)"
      by (metis prod_cases3)
    have a1: "DownloadOptions.ExpectedSize (opts dc1) = DownloadOptions.ExpectedSize (opts dc)"
      using attempt_unknown [OF att] Cons.prems(2) by simp
    show ?thesis
    proof (cases out)
      case (Return r')
      with Cons.prems(1) nl att have "dc' = dc1"
        by (simp add: downloadImpl_return)
      with a1 show ?thesis by simp
    next
      case (RetryOrErr e c)
      define dc2 where "dc2 = dc1\<lparr>curRetry := curRetry dc1 + 1\<rparr>"
      have o2: "opts dc2 = opts dc1" by (simp add: dc2_def)
      show ?thesis
      proof (cases "atLimit dc2")
        case True
        with Cons.prems(1) nl att RetryOrErr have "dc' = dc2"
          by (simp add: downloadImpl_exhausted dc2_def)
        with a1 o2 show ?thesis by simp
      next
        case False
        obtain d where d: "backoff (curRetry dc1 + 1) (draw a) = Some d"
          using backoff_Some by blast
        define w2 where "w2 = w1\<lparr>slept := slept w1 @ [d]\<rparr>"
        have "downloadImpl tp (a # rest) cr (dc, w) = downloadImpl tp rest c (dc2, w2)"
          unfolding dc2_def w2_def
          using downloadImpl_retry [OF nl att [unfolded RetryOrErr] False [unfolded dc2_def] d] .
        with Cons.prems(1) have run: "downloadImpl tp rest c (dc2, w2) = Some (r, dc', w')"
          by simp
        from Cons.IH [OF run] Cons.prems(2) a1 o2 show ?thesis by auto
      qed
    qed
  qed
qed

lemma downloadImpl_last:
  assumes "consistent (dc, w)" "downloadImpl tp scr cr (dc, w) = Some (None, dc', w')"
  shows "\<exists>i resp prior. i < length scr \<and> curRetry dc' = curRetry dc + word_of_nat i
       \<and> doResult (scr ! i) = Some resp \<and> copyEnded resp = EndOfBody
       \<and> content (tmpFile w') = prior @ copied resp
       \<and> (length (content (tmpFile w')) < 2 ^ 63 \<longrightarrow> 0 <s parseContentLength (Header resp) \<longrightarrow>
            DownloadOptions.ExpectedSize (opts dc')
              = word_of_nat (length prior) + parseContentLength (Header resp))"
  using assms
proof (induction scr arbitrary: cr dc w)
  case Nil
  then show ?case by (auto split: if_splits)
next
  case (Cons a rest)
  show ?case
  proof (cases "atLimit dc")
    case True
    with Cons.prems show ?thesis by (auto simp: downloadImpl_atLimit)
  next
    case nl: False
    obtain out dc1 w1 where att: "attempt tp a cr (dc, w) = (out, dc1, w1)"
      by (metis prod_cases3)
    note a1 = attempt_consistent [OF Cons.prems(1) att]
    note ac = attempt_cases [OF att]
    show ?thesis
    proof (cases out)
      case (Return r')
      with Cons.prems(2) nl att have eq: "r' = None" "dc' = dc1" "w' = w1"
        by (simp_all add: downloadImpl_return)
      from attempt_success [OF Cons.prems(1) att [unfolded Return eq(1)]]
      obtain resp prior where
        p: "doResult a = Some resp" "copyEnded resp = EndOfBody"
           "content (tmpFile w1) = prior @ copied resp"
           "length (content (tmpFile w1)) < 2 ^ 63 \<longrightarrow> 0 <s parseContentLength (Header resp) \<longrightarrow>
            DownloadOptions.ExpectedSize (opts dc1)
              = word_of_nat (length prior) + parseContentLength (Header resp)"
        by blast
      show ?thesis
        apply (rule exI [of _ 0], rule exI [of _ resp], rule exI [of _ prior])
        using p eq ac by simp
    next
      case (RetryOrErr e c)
      define dc2 where "dc2 = dc1\<lparr>curRetry := curRetry dc1 + 1\<rparr>"
      have c2: "consistent (dc2, w1)" using a1 by (simp add: consistent_def dc2_def)
      show ?thesis
      proof (cases "atLimit dc2")
        case True
        with Cons.prems(2) nl att RetryOrErr show ?thesis
          by (simp add: downloadImpl_exhausted dc2_def)
      next
        case False
        obtain d where d: "backoff (curRetry dc1 + 1) (draw a) = Some d"
          using backoff_Some by blast
        define w2 where "w2 = w1\<lparr>slept := slept w1 @ [d]\<rparr>"
        have c3: "consistent (dc2, w2)" using c2 by (simp add: consistent_def w2_def)
        have "downloadImpl tp (a # rest) cr (dc, w) = downloadImpl tp rest c (dc2, w2)"
          unfolding dc2_def w2_def
          using downloadImpl_retry [OF nl att [unfolded RetryOrErr] False [unfolded dc2_def] d] .
        with Cons.prems(2) have run: "downloadImpl tp rest c (dc2, w2) = Some (None, dc', w')"
          by simp
        from Cons.IH [OF c3 run] obtain i resp prior where
          p: "i < length rest" "curRetry dc' = curRetry dc2 + word_of_nat i"
             "doResult (rest ! i) = Some resp" "copyEnded resp = EndOfBody"
             "content (tmpFile w') = prior @ copied resp"
             "length (content (tmpFile w')) < 2 ^ 63 \<longrightarrow> 0 <s parseContentLength (Header resp) \<longrightarrow>
              DownloadOptions.ExpectedSize (opts dc')
                = word_of_nat (length prior) + parseContentLength (Header resp)"
          by blast
        have cr2: "curRetry dc2 = curRetry dc + 1" using ac by (simp add: dc2_def)
        show ?thesis
          apply (rule exI [of _ "Suc i"], rule exI [of _ resp], rule exI [of _ prior])
          using p cr2 by simp
      qed
    qed
  qed
qed

lemma DownloadToFile_unfold:
  assumes "\<not> createFails env"
    "downloadImpl tp (script env) False
       (\<lparr>remoteURL = url, opts = options, bytesRead = 0, curRetry = 0\<rparr>,
        \<lparr>tmpFile = \<lparr>content = [], offset = 0\<rparr>, sent = [], slept = []\<rparr>) = Some (r, dc', w')"
  shows "DownloadToFile tp env url localPath options fs =
      (case r of
         Some e \<Rightarrow>
           Some (\<lparr>DownloadResults.ExpectedSize = DownloadOptions.ExpectedSize (opts dc'),
                  ActualSize = bytesRead dc', LastModified = ExpectedLastModified (opts dc'),
                  Retries = curRetry dc'\<rparr>, Some e,
                 fs(localPath @ ''.tmp'' \<mapsto> \<lparr>bytesOf = content (tmpFile w'), modTime = clock env\<rparr>))
       | None \<Rightarrow>
           if fileCloseFails env then
             Some (\<lparr>DownloadResults.ExpectedSize = DownloadOptions.ExpectedSize (opts dc'),
                  ActualSize = bytesRead dc', LastModified = ExpectedLastModified (opts dc'),
                  Retries = curRetry dc'\<rparr>, Some CloseFile,
                 fs(localPath @ ''.tmp'' \<mapsto> \<lparr>bytesOf = content (tmpFile w'), modTime = clock env\<rparr>))
           else
             case ReplaceFile env (localPath @ ''.tmp'') localPath
                    (fs(localPath @ ''.tmp'' \<mapsto> \<lparr>bytesOf = content (tmpFile w'), modTime = clock env\<rparr>)) of
               Inl e \<Rightarrow>
                 Some (\<lparr>DownloadResults.ExpectedSize = DownloadOptions.ExpectedSize (opts dc'),
                  ActualSize = bytesRead dc', LastModified = ExpectedLastModified (opts dc'),
                  Retries = curRetry dc'\<rparr>, Some e,
                 fs(localPath @ ''.tmp'' \<mapsto> \<lparr>bytesOf = content (tmpFile w'), modTime = clock env\<rparr>))
             | Inr fs3 \<Rightarrow>
                 (case modifyFileTime env localPath (ExpectedLastModified (opts dc')) fs3 of
                    Inl e \<Rightarrow>
                      Some (\<lparr>DownloadResults.ExpectedSize = DownloadOptions.ExpectedSize (opts dc'),
                        ActualSize = bytesRead dc', LastModified = ExpectedLastModified (opts dc'),
                        Retries = curRetry dc'\<rparr>, Some e, fs3)
                  | Inr fs4 \<Rightarrow>
                      Some (\<lparr>DownloadResults.ExpectedSize = DownloadOptions.ExpectedSize (opts dc'),
                        ActualSize = bytesRead dc', LastModified = ExpectedLastModified (opts dc'),
                        Retries = curRetry dc'\<rparr>, None, fs4)))"
  using assms
  unfolding DownloadToFile_def Let_def
  by (cases r) (auto split: sum.splits)

lemma publish:
  assumes "\<not> fileCloseFails env"
    "ReplaceFile env (localPath @ ''.tmp'') localPath
       (fs(localPath @ ''.tmp'' \<mapsto> \<lparr>bytesOf = bs, modTime = t\<rparr>)) = Inr fs3"
    "modifyFileTime env localPath stamp fs3 = Inr fs4"
  shows "\<exists>d. fs4 localPath = Some d \<and> bytesOf d = bs
       \<and> (\<not> IsZero stamp \<longrightarrow> modTime d = stamp)"
proof -
  have f3: "fs3 localPath = Some \<lparr>bytesOf = bs, modTime = t\<rparr>"
    using assms(2) by (auto simp: ReplaceFile_def split: if_splits)
  show ?thesis
    using assms(3) f3 by (auto simp: modifyFileTime_def split: if_splits)
qed

lemma publish_succeeds:
  assumes "\<not> replaceFails env" "\<not> chtimesFails env"
  shows "\<exists>fs3 fs4. ReplaceFile env (localPath @ ''.tmp'') localPath
       (fs(localPath @ ''.tmp'' \<mapsto> \<lparr>bytesOf = bs, modTime = t\<rparr>)) = Inr fs3
     \<and> modifyFileTime env localPath stamp fs3 = Inr fs4"
  using assms by (simp add: ReplaceFile_def modifyFileTime_def)

lemma unchecked_run:
  assumes "\<not> newRequestFails a" "doResult a = Some resp" "copyEnded resp = EndOfBody"
    "\<not> closeFails resp" "\<not> 0 <s DownloadOptions.ExpectedSize options"
    "\<not> 0 <s parseContentLength (Header resp)"
    "IsZero (parseLastModifiedMinute tp (Header resp))"
  shows "downloadImpl tp (a # rest) False
       (\<lparr>remoteURL = url, opts = options, bytesRead = 0, curRetry = 0\<rparr>,
        \<lparr>tmpFile = \<lparr>content = [], offset = 0\<rparr>, sent = [], slept = []\<rparr>)
     = Some (None,
         \<lparr>remoteURL = url, opts = options, bytesRead = word_of_nat (length (copied resp)),
          curRetry = 0\<rparr>,
         \<lparr>tmpFile = \<lparr>content = copied resp, offset = length (copied resp)\<rparr>, sent = [None],
          slept = []\<rparr>)"
proof -
  let ?dc = "\<lparr>remoteURL = url, opts = options, bytesRead = 0, curRetry = 0\<rparr>"
  let ?w = "\<lparr>tmpFile = \<lparr>content = [], offset = 0\<rparr>, sent = [], slept = []\<rparr>"
  have nl: "\<not> atLimit ?dc" by (auto simp: atLimit_def word_le_nat_alt word_less_nat_alt)
  have att: "attempt tp a False (?dc, ?w)
     = (Return None,
         \<lparr>remoteURL = url, opts = options, bytesRead = word_of_nat (length (copied resp)),
          curRetry = 0\<rparr>,
         \<lparr>tmpFile = \<lparr>content = copied resp, offset = length (copied resp)\<rparr>, sent = [None],
          slept = []\<rparr>)"
    using assms
    by (simp add: attempt_def dropPrevious_def checkContentLength_def checkLastModified_def
        copyBody_def fileWrite_def Let_def)
  from downloadImpl_return [OF nl att] show ?thesis .
qed

text \<open>
  C3 (amended). When \<open>DownloadToFile\<close> returns without error, the final path holds the
  bytes counted by \<open>ActualSize\<close>, ending with the bytes of the last response. When the
  resolved expected size is positive, the number of these bytes is that size; the resolved
  size is the caller's when that was positive on entry, and when the last response carries a
  positive \<open>Content-Length\<close> it is the bytes kept from earlier attempts plus that length
  (for a file below \<open>2^63\<close> bytes). When no response carries a positive \<open>Content-Length\<close>,
  the resolved size is the caller's; and when that is not positive no size is checked: a
  first response without length and time, read to its end, is published whatever the
  number of its bytes. When the resolved expected time is not zero, it is the file's
  modification time, and it is the caller's when that was not zero on entry.
\<close>

theorem download_success:
  "(DownloadToFile tp env url localPath options fs = Some (res, None, fs') \<longrightarrow>
     (\<exists>d i resp prior.
        fs' localPath = Some d
        \<and> ActualSize res = word_of_nat (length (bytesOf d))
        \<and> (0 <s DownloadResults.ExpectedSize res \<longrightarrow>
             DownloadResults.ExpectedSize res = word_of_nat (length (bytesOf d))
             \<and> (length (bytesOf d) < 2 ^ 63 \<longrightarrow>
                  sint (DownloadResults.ExpectedSize res) = int (length (bytesOf d))))
        \<and> (0 <s DownloadOptions.ExpectedSize options \<longrightarrow>
             DownloadResults.ExpectedSize res = DownloadOptions.ExpectedSize options)
        \<and> i < length (script env) \<and> Retries res = word_of_nat i
        \<and> doResult (script env ! i) = Some resp \<and> copyEnded resp = EndOfBody
        \<and> bytesOf d = prior @ copied resp
        \<and> (length (bytesOf d) < 2 ^ 63 \<longrightarrow> 0 <s parseContentLength (Header resp) \<longrightarrow>
             DownloadResults.ExpectedSize res
               = word_of_nat (length prior) + parseContentLength (Header resp))
        \<and> ((\<forall>a \<in> set (script env). \<forall>r. doResult a = Some r \<longrightarrow>
                \<not> 0 <s parseContentLength (Header r)) \<longrightarrow>
             DownloadResults.ExpectedSize res = DownloadOptions.ExpectedSize options)
        \<and> (\<not> IsZero (LastModified res) \<longrightarrow> modTime d = LastModified res)
        \<and> (\<not> IsZero (ExpectedLastModified options) \<longrightarrow>
             LastModified res = ExpectedLastModified options)))
   \<and> (\<not> createFails env \<and> \<not> fileCloseFails env \<and> \<not> replaceFails env \<and> \<not> chtimesFails env
        \<and> script env = a # rest \<and> \<not> newRequestFails a \<and> doResult a = Some resp0
        \<and> copyEnded resp0 = EndOfBody \<and> \<not> closeFails resp0
        \<and> \<not> 0 <s DownloadOptions.ExpectedSize options
        \<and> \<not> 0 <s parseContentLength (Header resp0)
        \<and> IsZero (parseLastModifiedMinute tp (Header resp0)) \<longrightarrow>
      (\<exists>res0 fs0 d0. DownloadToFile tp env url localPath options fs = Some (res0, None, fs0)
         \<and> fs0 localPath = Some d0 \<and> bytesOf d0 = copied resp0
         \<and> DownloadResults.ExpectedSize res0 = DownloadOptions.ExpectedSize options))"
proof (intro conjI impI)
  assume ok: "DownloadToFile tp env url localPath options fs = Some (res, None, fs')"
  define dc where "dc = \<lparr>remoteURL = url, opts = options, bytesRead = 0, curRetry = 0\<rparr>"
  define w where "w = \<lparr>tmpFile = \<lparr>content = [], offset = 0\<rparr>, sent = [], slept = []\<rparr>"
  have c0: "consistent (dc, w)" by (simp add: consistent_def dc_def w_def)
  have nc: "\<not> createFails env"
    using ok by (auto simp: DownloadToFile_def Let_def)
  obtain r dc' w' where run: "downloadImpl tp (script env) False (dc, w) = Some (r, dc', w')"
    using ok nc
    by (cases "downloadImpl tp (script env) False (dc, w)")
       (auto simp: DownloadToFile_def Let_def dc_def w_def)
  note unf = DownloadToFile_unfold [OF nc run [unfolded dc_def w_def], of localPath fs]
  from ok unf have rN: "r = None" by (cases r) auto
  from ok unf rN obtain fs3 where
    ncl: "\<not> fileCloseFails env"
    and rf: "ReplaceFile env (localPath @ ''.tmp'') localPath
       (fs(localPath @ ''.tmp'' \<mapsto> \<lparr>bytesOf = content (tmpFile w'), modTime = clock env\<rparr>)) = Inr fs3"
    and mf: "modifyFileTime env localPath (ExpectedLastModified (opts dc')) fs3 = Inr fs'"
    and rr: "res = \<lparr>DownloadResults.ExpectedSize = DownloadOptions.ExpectedSize (opts dc'),
                  ActualSize = bytesRead dc', LastModified = ExpectedLastModified (opts dc'),
                  Retries = curRetry dc'\<rparr>"
    by (auto split: if_splits sum.splits)
  from publish [OF ncl rf mf] obtain d where
    d: "fs' localPath = Some d" "bytesOf d = content (tmpFile w')"
       "\<not> IsZero (ExpectedLastModified (opts dc')) \<longrightarrow> modTime d = ExpectedLastModified (opts dc')"
    by blast
  note inv = downloadImpl_consistent [OF c0 run]
  have br: "bytesRead dc' = word_of_nat (length (content (tmpFile w')))"
    using inv by (simp add: consistent_def)
  have sz: "0 <s DownloadOptions.ExpectedSize (opts dc') \<longrightarrow>
      DownloadOptions.ExpectedSize (opts dc') = word_of_nat (length (content (tmpFile w')))"
    using inv rN br by simp
  have keep: "0 <s DownloadOptions.ExpectedSize options \<longrightarrow>
      DownloadOptions.ExpectedSize (opts dc') = DownloadOptions.ExpectedSize options"
    "\<not> IsZero (ExpectedLastModified options) \<longrightarrow>
      ExpectedLastModified (opts dc') = ExpectedLastModified options"
    using inv by (simp_all add: dc_def)
  have exact: "0 <s DownloadOptions.ExpectedSize (opts dc') \<longrightarrow>
      length (content (tmpFile w')) < 2 ^ 63 \<longrightarrow>
      sint (DownloadOptions.ExpectedSize (opts dc')) = int (length (content (tmpFile w')))"
    using sz sint_of_nat_small by auto
  from downloadImpl_last [OF c0 run [unfolded rN]] obtain i resp prior where
    l: "i < length (script env)" "curRetry dc' = curRetry dc + word_of_nat i"
       "doResult (script env ! i) = Some resp" "copyEnded resp = EndOfBody"
       "content (tmpFile w') = prior @ copied resp"
       "length (content (tmpFile w')) < 2 ^ 63 \<longrightarrow> 0 <s parseContentLength (Header resp) \<longrightarrow>
          DownloadOptions.ExpectedSize (opts dc')
            = word_of_nat (length prior) + parseContentLength (Header resp)"
    by blast
  have ret: "curRetry dc' = word_of_nat i" using l(2) by (simp add: dc_def)
  have unk: "(\<forall>a \<in> set (script env). \<forall>r. doResult a = Some r \<longrightarrow>
                \<not> 0 <s parseContentLength (Header r)) \<longrightarrow>
             DownloadOptions.ExpectedSize (opts dc') = DownloadOptions.ExpectedSize options"
    using downloadImpl_unknown [OF run] by (simp add: dc_def)
  show "\<exists>d i resp prior.
        fs' localPath = Some d
        \<and> ActualSize res = word_of_nat (length (bytesOf d))
        \<and> (0 <s DownloadResults.ExpectedSize res \<longrightarrow>
             DownloadResults.ExpectedSize res = word_of_nat (length (bytesOf d))
             \<and> (length (bytesOf d) < 2 ^ 63 \<longrightarrow>
                  sint (DownloadResults.ExpectedSize res) = int (length (bytesOf d))))
        \<and> (0 <s DownloadOptions.ExpectedSize options \<longrightarrow>
             DownloadResults.ExpectedSize res = DownloadOptions.ExpectedSize options)
        \<and> i < length (script env) \<and> Retries res = word_of_nat i
        \<and> doResult (script env ! i) = Some resp \<and> copyEnded resp = EndOfBody
        \<and> bytesOf d = prior @ copied resp
        \<and> (length (bytesOf d) < 2 ^ 63 \<longrightarrow> 0 <s parseContentLength (Header resp) \<longrightarrow>
             DownloadResults.ExpectedSize res
               = word_of_nat (length prior) + parseContentLength (Header resp))
        \<and> ((\<forall>a \<in> set (script env). \<forall>r. doResult a = Some r \<longrightarrow>
                \<not> 0 <s parseContentLength (Header r)) \<longrightarrow>
             DownloadResults.ExpectedSize res = DownloadOptions.ExpectedSize options)
        \<and> (\<not> IsZero (LastModified res) \<longrightarrow> modTime d = LastModified res)
        \<and> (\<not> IsZero (ExpectedLastModified options) \<longrightarrow>
             LastModified res = ExpectedLastModified options)"
    apply (rule exI [of _ d], rule exI [of _ i], rule exI [of _ resp], rule exI [of _ prior])
    unfolding rr
    using d br sz keep exact l(1,3,4,5,6) ret unk by simp
next
  assume h: "\<not> createFails env \<and> \<not> fileCloseFails env \<and> \<not> replaceFails env \<and> \<not> chtimesFails env
        \<and> script env = a # rest \<and> \<not> newRequestFails a \<and> doResult a = Some resp0
        \<and> copyEnded resp0 = EndOfBody \<and> \<not> closeFails resp0
        \<and> \<not> 0 <s DownloadOptions.ExpectedSize options
        \<and> \<not> 0 <s parseContentLength (Header resp0)
        \<and> IsZero (parseLastModifiedMinute tp (Header resp0))"
  then have run: "downloadImpl tp (script env) False
       (\<lparr>remoteURL = url, opts = options, bytesRead = 0, curRetry = 0\<rparr>,
        \<lparr>tmpFile = \<lparr>content = [], offset = 0\<rparr>, sent = [], slept = []\<rparr>)
     = Some (None,
         \<lparr>remoteURL = url, opts = options, bytesRead = word_of_nat (length (copied resp0)),
          curRetry = 0\<rparr>,
         \<lparr>tmpFile = \<lparr>content = copied resp0, offset = length (copied resp0)\<rparr>, sent = [None],
          slept = []\<rparr>)"
    using unchecked_run [of a resp0 options tp rest url] by simp
  from h have nc: "\<not> createFails env" and ncl: "\<not> fileCloseFails env"
    and nr: "\<not> replaceFails env" and nt: "\<not> chtimesFails env" by simp_all
  from publish_succeeds [OF nr nt, of localPath fs "copied resp0" "clock env"
      "ExpectedLastModified options"]
  obtain fs3 fs4 where
    rf: "ReplaceFile env (localPath @ ''.tmp'') localPath
       (fs(localPath @ ''.tmp'' \<mapsto> \<lparr>bytesOf = copied resp0, modTime = clock env\<rparr>)) = Inr fs3"
    and mf: "modifyFileTime env localPath (ExpectedLastModified options) fs3 = Inr fs4"
    by blast
  from publish [OF ncl rf mf] obtain d0 where
    d0: "fs4 localPath = Some d0" "bytesOf d0 = copied resp0" by blast
  have "DownloadToFile tp env url localPath options fs
      = Some (\<lparr>DownloadResults.ExpectedSize = DownloadOptions.ExpectedSize options,
                ActualSize = word_of_nat (length (copied resp0)),
                LastModified = ExpectedLastModified options, Retries = 0\<rparr>, None, fs4)"
    using DownloadToFile_unfold [OF nc run, of localPath fs] ncl rf mf by simp
  with d0 show "\<exists>res0 fs0 d0. DownloadToFile tp env url localPath options fs = Some (res0, None, fs0)
         \<and> fs0 localPath = Some d0 \<and> bytesOf d0 = copied resp0
         \<and> DownloadResults.ExpectedSize res0 = DownloadOptions.ExpectedSize options"
    by simp
qed

subsection \<open>Concrete downloads\<close>

lemmas eval_defs = attempt_def answer_def response_def context0_def world0_def atLimit_def
  dropPrevious_def checkContentLength_def checkLastModified_def copyBody_def fileWrite_def
  parseCanResume_def parseContentLength_def parseLastModifiedMinute_def Get_def
  ParseInt_def isDigit_def digitsValue_def IsZero_def Equal_def Truncate_def Minute_def
  noTimes_def word_sless_alt Let_def

lemma backoff_1_7: "backoff 1 7 = Some 1007000000"
  by (simp add: backoff_def intPow_def intPowLoop.simps Int63n_def Millisecond_def word_sle_eq
      signed_divide_int_def)

text \<open>
  C3 as stated fails: with no expected size on entry and no \<open>Content-Length\<close> from the
  server, the download succeeds and publishes five bytes, while the resolved expected size
  is zero.
\<close>

theorem success_without_size:
  "DownloadToFile noTimes (environment [plain]) ''http://example.org/foo'' ''foo'' options0 Map.empty
   = Some (\<lparr>DownloadResults.ExpectedSize = 0, ActualSize = 5, LastModified = 0, Retries = 0\<rparr>,
           None,
           [''foo'' \<mapsto> \<lparr>bytesOf = [1, 2, 3, 4, 5], modTime = minutes 1061890560\<rparr>])"
  by (simp add: DownloadToFile_def environment_def plain_def options0_def eval_defs
      ReplaceFile_def modifyFileTime_def fun_upd_twist)

text \<open>
  C4 as stated fails: an error writing the temporary file, a local failure, ends the copy
  of the body and is retried; the download goes on with a second request.
\<close>

theorem write_error_is_retried:
  "copyEnded (the (doResult writeFails)) = WriteError
   \<and> downloadImpl noTimes [writeFails, remainder] False (context0 0 0, world0)
     = Some (None,
         \<lparr>remoteURL = ''http://example.org/foo'',
          opts = \<lparr>DownloadOptions.ExpectedSize = 0, ExpectedLastModified = 0, MaxRetry = 0\<rparr>,
          bytesRead = 5, curRetry = 1\<rparr>,
         \<lparr>tmpFile = \<lparr>content = [1, 2, 3, 4, 5], offset = 5\<rparr>, sent = [None, Some 3],
          slept = [1007000000]\<rparr>)"
  by (simp add: writeFails_def remainder_def eval_defs backoff_1_7)

text \<open>
  C5 as stated fails: a response with status 404 is not fatal; its body is published as
  the file.
\<close>

theorem not_found_is_published:
  "StatusCode (the (doResult notFound)) = 404
   \<and> DownloadToFile noTimes (environment [notFound]) ''http://example.org/foo'' ''foo'' options0 Map.empty
   = Some (\<lparr>DownloadResults.ExpectedSize = 0, ActualSize = 3, LastModified = 0, Retries = 0\<rparr>,
           None,
           [''foo'' \<mapsto> \<lparr>bytesOf = [1, 2, 3], modTime = minutes 1061890560\<rparr>])"
  by (simp add: DownloadToFile_def environment_def notFound_def options0_def eval_defs
      ReplaceFile_def modifyFileTime_def fun_upd_twist)

text \<open>
  C6 as stated fails: on a resuming attempt with a positive expected size, a response
  without \<open>Content-Length\<close> (parsed as -1, which is not the 60 bytes that remain) is not
  fatal; the download completes.
\<close>

theorem resume_without_length:
  "0 <s bytesRead context40 \<and> 0 <s DownloadOptions.ExpectedSize (opts context40)
   \<and> parseContentLength (Header (the (doResult noLength))) = - 1
   \<and> DownloadOptions.ExpectedSize (opts context40) - bytesRead context40 = 60
   \<and> downloadImpl noTimes [noLength] True (context40, world40)
     = Some (None, context40\<lparr>bytesRead := 100\<rparr>,
         \<lparr>tmpFile = \<lparr>content = replicate 40 1 @ replicate 60 2, offset = 100\<rparr>,
          sent = [None, Some 40], slept = []\<rparr>)"
  by (simp add: noLength_def context40_def world40_def eval_defs)

subsection \<open>The Content-Length of a resumed download\<close>

lemma ParseInt_range:
  assumes "ParseInt s = Some n"
  shows "- (2 ^ 63) \<le> n \<and> n < 2 ^ 63"
  using assms
  by (auto simp: ParseInt_def Let_def split: if_splits)

lemma sint_of_int_small:
  assumes "- (2 ^ 63) \<le> n" "n < 2 ^ 63"
  shows "sint (word_of_int n :: 64 word) = n"
  using assms by (simp add: sint_sbintrunc' signed_take_bit_int_eq_self)

lemma parseContentLength_cases:
  "(Get h ''Content-Length'' = [] \<longrightarrow> parseContentLength h = - 1)
   \<and> (Get h ''Content-Length'' \<noteq> [] \<longrightarrow> ParseInt (Get h ''Content-Length'') = None \<longrightarrow>
        parseContentLength h = - 1)
   \<and> (\<forall>n. Get h ''Content-Length'' \<noteq> [] \<longrightarrow> ParseInt (Get h ''Content-Length'') = Some n \<longrightarrow>
        sint (parseContentLength h) = n)"
  using ParseInt_range sint_of_int_small
  by (auto simp: parseContentLength_def Let_def)

text \<open>
  C6 (amended). On a resuming attempt (\<open>canResume\<close> true and \<open>bytesRead > 0\<close>) whose response
  carries a positive parsed \<open>Content-Length\<close>: with a positive expected size the attempt
  fails at once, without retry, unless the length equals the expected size less the bytes
  read, and then the expected size stays; with no positive expected size, the expected
  size becomes the bytes read plus the length. With a parsed length that is not positive
  (the header absent, unparseable, zero or negative) there is neither check nor
  assignment. The header parses as a decimal \<open>int64\<close>; absent or unparseable it is -1.
\<close>

theorem resume_content_length:
  assumes "0 <s bytesRead dc" "\<not> newRequestFails a" "doResult a = Some resp"
    "attempt tp a True (dc, w) = (out, dc', w')"
  shows "(0 <s parseContentLength (Header resp) \<longrightarrow> 0 <s DownloadOptions.ExpectedSize (opts dc) \<longrightarrow>
            parseContentLength (Header resp) \<noteq> DownloadOptions.ExpectedSize (opts dc) - bytesRead dc \<longrightarrow>
            out = Return (Some (RemainingContentLength
                    (DownloadOptions.ExpectedSize (opts dc) - bytesRead dc)
                    (parseContentLength (Header resp))))
            \<and> dc' = dc \<and> w' = w\<lparr>sent := sent w @ [Some (bytesRead dc)]\<rparr>
            \<and> (\<not> atLimit dc \<longrightarrow>
                 (\<forall>rest. downloadImpl tp (a # rest) True (dc, w)
                    = Some (Some (RemainingContentLength
                              (DownloadOptions.ExpectedSize (opts dc) - bytesRead dc)
                              (parseContentLength (Header resp))),
                            dc, w\<lparr>sent := sent w @ [Some (bytesRead dc)]\<rparr>))))
       \<and> (0 <s parseContentLength (Header resp) \<longrightarrow> 0 <s DownloadOptions.ExpectedSize (opts dc) \<longrightarrow>
            parseContentLength (Header resp) = DownloadOptions.ExpectedSize (opts dc) - bytesRead dc \<longrightarrow>
            (\<forall>x y. out \<noteq> Return (Some (RemainingContentLength x y)))
            \<and> DownloadOptions.ExpectedSize (opts dc') = DownloadOptions.ExpectedSize (opts dc))
       \<and> (0 <s parseContentLength (Header resp) \<longrightarrow> \<not> 0 <s DownloadOptions.ExpectedSize (opts dc) \<longrightarrow>
            DownloadOptions.ExpectedSize (opts dc')
              = bytesRead dc + parseContentLength (Header resp))
       \<and> (\<not> 0 <s parseContentLength (Header resp) \<longrightarrow>
            (\<forall>x y. out \<noteq> Return (Some (RemainingContentLength x y)))
            \<and> DownloadOptions.ExpectedSize (opts dc') = DownloadOptions.ExpectedSize (opts dc))
       \<and> (Get (Header resp) ''Content-Length'' = [] \<longrightarrow> parseContentLength (Header resp) = - 1)
       \<and> (Get (Header resp) ''Content-Length'' \<noteq> [] \<longrightarrow>
            ParseInt (Get (Header resp) ''Content-Length'') = None \<longrightarrow>
            parseContentLength (Header resp) = - 1)
       \<and> (\<forall>n. Get (Header resp) ''Content-Length'' \<noteq> [] \<longrightarrow>
            ParseInt (Get (Header resp) ''Content-Length'') = Some n \<longrightarrow>
            sint (parseContentLength (Header resp)) = n)"
proof -
  define cl where "cl = parseContentLength (Header resp)"
  define w1 where "w1 = w\<lparr>sent := sent w @ [Some (bytesRead dc)]\<rparr>"
  have dp: "dropPrevious a True (dc, w1) = Inr (dc, w1)"
    by (simp add: dropPrevious_def)
  have unf: "attempt tp a True (dc, w) =
      (case checkContentLength cl True dc of
         Inl e \<Rightarrow> (Return (Some e), dc, w1)
       | Inr dc3 \<Rightarrow>
           (case checkLastModified (parseLastModifiedMinute tp (Header resp)) dc3 of
              Inl e \<Rightarrow> (Return (Some e), dc3, w1)
            | Inr dc4 \<Rightarrow> copyBody resp True (dc4, w1)))"
    using assms(1,2,3) by (simp add: attempt_def dp w1_def [symmetric] cl_def)
  have A: "out = Return (Some (RemainingContentLength (DownloadOptions.ExpectedSize (opts dc) - bytesRead dc) cl))
        \<and> dc' = dc \<and> w' = w1"
    if "0 <s cl" "0 <s DownloadOptions.ExpectedSize (opts dc)"
       "cl \<noteq> DownloadOptions.ExpectedSize (opts dc) - bytesRead dc"
  proof -
    have "checkContentLength cl True dc
        = Inl (RemainingContentLength (DownloadOptions.ExpectedSize (opts dc) - bytesRead dc) cl)"
      using that by (simp add: checkContentLength_def Let_def)
    with unf assms(4) show ?thesis by simp
  qed
  have A': "downloadImpl tp (a # rest) True (dc, w)
        = Some (Some (RemainingContentLength (DownloadOptions.ExpectedSize (opts dc) - bytesRead dc) cl), dc, w1)"
    if "0 <s cl" "0 <s DownloadOptions.ExpectedSize (opts dc)"
       "cl \<noteq> DownloadOptions.ExpectedSize (opts dc) - bytesRead dc" "\<not> atLimit dc" for rest
    using A [OF that(1,2,3)] assms(4) that(4) by (simp add: downloadImpl_return)
  have rest_of: "(\<forall>x y. out \<noteq> Return (Some (RemainingContentLength x y)))
        \<and> DownloadOptions.ExpectedSize (opts dc') = DownloadOptions.ExpectedSize (opts dc3)"
    if "checkContentLength cl True dc = Inr dc3" for dc3
  proof (cases "checkLastModified (parseLastModifiedMinute tp (Header resp)) dc3")
    case (Inl e)
    then have "\<exists>x y. e = LastModifiedMismatch x y"
      by (auto simp: checkLastModified_def split: if_splits)
    with Inl unf that assms(4) show ?thesis by auto
  next
    case (Inr dc4)
    with unf that assms(4) have cb: "copyBody resp True (dc4, w1) = (out, dc', w')" by simp
    have "\<forall>x y. out \<noteq> Return (Some (RemainingContentLength x y))"
      using cb by (auto simp: copyBody_def Let_def split: if_splits)
    with copyBody_keeps [OF cb] checkLastModified_keeps [OF Inr] show ?thesis by simp
  qed
  have B: "(\<forall>x y. out \<noteq> Return (Some (RemainingContentLength x y)))
        \<and> DownloadOptions.ExpectedSize (opts dc') = DownloadOptions.ExpectedSize (opts dc)"
    if "0 <s cl" "0 <s DownloadOptions.ExpectedSize (opts dc)"
       "cl = DownloadOptions.ExpectedSize (opts dc) - bytesRead dc"
  proof -
    have "checkContentLength cl True dc = Inr dc"
      using that by (simp add: checkContentLength_def Let_def)
    from rest_of [OF this] show ?thesis .
  qed
  have C: "DownloadOptions.ExpectedSize (opts dc') = bytesRead dc + cl"
    if "0 <s cl" "\<not> 0 <s DownloadOptions.ExpectedSize (opts dc)"
  proof -
    have "checkContentLength cl True dc
        = Inr (dc\<lparr>opts := (opts dc)\<lparr>DownloadOptions.ExpectedSize := bytesRead dc + cl\<rparr>\<rparr>)"
      using that by (simp add: checkContentLength_def Let_def)
    from rest_of [OF this] show ?thesis by simp
  qed
  have D: "(\<forall>x y. out \<noteq> Return (Some (RemainingContentLength x y)))
        \<and> DownloadOptions.ExpectedSize (opts dc') = DownloadOptions.ExpectedSize (opts dc)"
    if "\<not> 0 <s cl"
  proof -
    have "checkContentLength cl True dc = Inr dc"
      using that by (simp add: checkContentLength_def)
    from rest_of [OF this] show ?thesis .
  qed
  note P = parseContentLength_cases [of "Header resp"]
  show ?thesis
    unfolding cl_def [symmetric] w1_def [symmetric]
    using A A' B C D P [unfolded cl_def [symmetric]] by blast
qed

subsection \<open>The theorems at concrete downloads\<close>

theorem resume_content_length_witness:
  "0 <s bytesRead context40 \<and> \<not> newRequestFails lengthFifty
   \<and> doResult lengthFifty
       = Some (response 206 [(''Content-Length'', ''50'')] (replicate 50 2) EndOfBody)
   \<and> attempt noTimes lengthFifty True (context40, world40)
       = (Return (Some (RemainingContentLength 60 50)), context40, world40\<lparr>sent := [None, Some 40]\<rparr>)
   \<and> downloadImpl noTimes [lengthFifty, plain] True (context40, world40)
       = Some (Some (RemainingContentLength 60 50), context40, world40\<lparr>sent := [None, Some 40]\<rparr>)"
proof -
  let ?resp = "response 206 [(''Content-Length'', ''50'')] (replicate 50 2) EndOfBody"
  have h1: "0 <s bytesRead context40" by (simp add: context40_def context0_def word_sless_alt)
  have h2: "\<not> newRequestFails lengthFifty" by (simp add: lengthFifty_def answer_def)
  have h3: "doResult lengthFifty = Some ?resp" by (simp add: lengthFifty_def answer_def)
  have h4: "attempt noTimes lengthFifty True (context40, world40)
       = (Return (Some (RemainingContentLength 60 50)), context40, world40\<lparr>sent := [None, Some 40]\<rparr>)"
    by (simp add: lengthFifty_def context40_def world40_def eval_defs)
  have cl: "parseContentLength (Header ?resp) = 50"
    by (simp add: eval_defs)
  have es: "DownloadOptions.ExpectedSize (opts context40) = 100" "bytesRead context40 = 40"
    "\<not> atLimit context40" "sent world40 = [None]"
    by (simp_all add: context40_def context0_def atLimit_def world40_def)
  from resume_content_length [OF h1 h2 h3 h4] cl es
  have "downloadImpl noTimes [lengthFifty, plain] True (context40, world40)
       = Some (Some (RemainingContentLength 60 50), context40, world40\<lparr>sent := [None, Some 40]\<rparr>)"
    by (simp add: word_sless_alt)
  with h1 h2 h3 h4 show ?thesis by blast
qed

theorem retry_only_for_request_and_copy_errors_witness:
  "\<not> atLimit (context0 200 5)
   \<and> attempt noTimes lengthHundred False (context0 200 5, world0)
       = (Return (Some (ContentLength 200 100)), context0 200 5, world0\<lparr>sent := [None]\<rparr>)
   \<and> downloadImpl noTimes [lengthHundred, plain] False (context0 200 5, world0)
       = Some (Some (ContentLength 200 100), context0 200 5, world0\<lparr>sent := [None]\<rparr>)"
proof -
  have h1: "\<not> atLimit (context0 200 5)" by (simp add: atLimit_def context0_def)
  have h2: "attempt noTimes lengthHundred False (context0 200 5, world0)
       = (Return (Some (ContentLength 200 100)), context0 200 5, world0\<lparr>sent := [None]\<rparr>)"
    by (simp add: lengthHundred_def eval_defs)
  from retry_only_for_request_and_copy_errors [OF h1 h2]
  have "downloadImpl noTimes [lengthHundred, plain] False (context0 200 5, world0)
       = Some (Some (ContentLength 200 100), context0 200 5, world0\<lparr>sent := [None]\<rparr>)"
    by blast
  with h1 h2 show ?thesis by blast
qed

theorem download_success_witness:
  "DownloadToFile oneTime (environment [stamped]) ''http://example.org/foo'' ''foo'' options0 Map.empty
     = Some (\<lparr>DownloadResults.ExpectedSize = 5, ActualSize = 5,
              LastModified = minutes 1061890560, Retries = 0\<rparr>,
             None,
             [''foo'' \<mapsto> \<lparr>bytesOf = [1, 2, 3, 4, 5], modTime = minutes 1061890560\<rparr>])
   \<and> parseContentLength (Header (the (doResult stamped))) = 5
   \<and> (\<exists>d. [''foo'' \<mapsto> \<lparr>bytesOf = [1, 2, 3, 4, 5], modTime = minutes 1061890560\<rparr>] ''foo'' = Some d
        \<and> length (bytesOf d) = 5 \<and> modTime d = minutes 1061890560)"
proof -
  have run: "DownloadToFile oneTime (environment [stamped]) ''http://example.org/foo'' ''foo'' options0 Map.empty
     = Some (\<lparr>DownloadResults.ExpectedSize = 5, ActualSize = 5,
              LastModified = minutes 1061890560, Retries = 0\<rparr>,
             None,
             [''foo'' \<mapsto> \<lparr>bytesOf = [1, 2, 3, 4, 5], modTime = minutes 1061890560\<rparr>])"
    by (simp add: DownloadToFile_def environment_def stamped_def options0_def oneTime_def
        minutes_def eval_defs ReplaceFile_def modifyFileTime_def fun_upd_twist)
  have cl: "parseContentLength (Header (the (doResult stamped))) = 5"
    by (simp add: stamped_def eval_defs)
  from download_success [THEN conjunct1, rule_format, OF run] run cl show ?thesis by simp
qed




section \<open>Properties of the listing parser\<close>













end
